theory Spec2Isabelle
  imports Complex_Main "HOL-Library.Word"
begin

unbundle bit_operations_syntax


section \<open>JavaScript strings\<close>

text \<open>
  A JavaScript string is a sequence of UTF-16 code units. The model uses \<open>string\<close>
  (a list of 8-bit characters), standing for the code units U+0000 to U+00FF.
  \<open>String.prototype.trim\<close> removes white space and line terminators from both ends;
  in this range they are TAB, LF, VT, FF, CR, SPACE and NBSP.
\<close>

definition is_ws :: "char \<Rightarrow> bool" where
  "is_ws c = (c \<in> set [CHR 0x09, CHR 0x0A, CHR 0x0B, CHR 0x0C, CHR 0x0D, CHR 0x20, CHR 0xA0])"

definition trimStart :: "string \<Rightarrow> string" where
  "trimStart s = dropWhile is_ws s"

definition trimEnd :: "string \<Rightarrow> string" where
  "trimEnd s = rev (dropWhile is_ws (rev s))"

definition trim :: "string \<Rightarrow> string" where
  "trim s = trimEnd (trimStart s)"

text \<open>\<open>s.includes(p)\<close>: \<open>p\<close> occurs in \<open>s\<close> as a contiguous substring.\<close>

fun starts_with :: "string \<Rightarrow> string \<Rightarrow> bool" where
  "starts_with s [] = True"
| "starts_with [] (p # ps) = False"
| "starts_with (c # cs) (p # ps) = (c = p \<and> starts_with cs ps)"

fun includes_str :: "string \<Rightarrow> string \<Rightarrow> bool" where
  "includes_str [] p = (p = [])"
| "includes_str (c # cs) p = (starts_with (c # cs) p \<or> includes_str cs p)"

text \<open>
  \<open>String.prototype.toLowerCase\<close> on the code units U+0000 to U+00FF: the letters
  A to Z and the Latin-1 capitals U+00C0 to U+00DE (without the multiplication sign
  U+00D7) move up by 32; every other code unit is kept.
\<close>

definition lower_char :: "char \<Rightarrow> char" where
  "lower_char c =
     (let n = (of_char c :: nat) in
      if (65 \<le> n \<and> n \<le> 90) \<or> (192 \<le> n \<and> n \<le> 222 \<and> n \<noteq> 215)
      then char_of (n + 32) else c)"

definition toLowerCase :: "string \<Rightarrow> string" where
  "toLowerCase s = map lower_char s"


section \<open>FocusTracker: the vision sampler and its streak logic\<close>

text \<open>
  A focus score is a JSON number; it is modelled as a real number. A time stamp is the
  value of \<open>Date.now()\<close>.
\<close>

record FocusDataPoint =
  timestamp :: nat
  score :: real

datatype tracker_status = Idle | Analyzing | Error

text \<open>
  The component state of \<open>FocusTracker\<close>: the displayed score, the status line, and
  the two references \<open>lowFocusCounter\<close> and \<open>teacherAlertSent\<close> that live across
  ticks.
\<close>

record FocusTracker =
  focusScore :: real
  status :: tracker_status
  errorMessage :: string
  lowFocusCounter :: nat
  teacherAlertSent :: bool

text \<open>The calls that \<open>analyzeFrame\<close> makes to its props and to the service, in order.\<close>

datatype callback =
    OnFocusUpdate FocusDataPoint
  | OnLowFocus nat real
  | SendFocusAlertToTeacher string
  | OnApiError string

text \<open>
  What one timer tick meets: whether the video and canvas elements are there with
  \<open>readyState \<ge> 2\<close>, whether the canvas gives a 2d context, the clock when the
  classification returns, and the outcome of \<open>geminiService.analyzeFocus\<close>: the
  message of the error thrown, or the pair of score and reason.
\<close>

record frame_tick =
  ready :: bool
  has_context :: bool
  now :: nat
  outcome :: "string + real \<times> string"

definition mounted :: FocusTracker where
  "mounted = \<lparr>focusScore = 100, status = Idle, errorMessage = [],
              lowFocusCounter = 0, teacherAlertSent = False\<rparr>"

definition analyzeFrame :: "string \<Rightarrow> frame_tick \<Rightarrow> FocusTracker \<Rightarrow> FocusTracker \<times> callback list" where
  "analyzeFrame cname tk t =
     (if \<not> ready tk then (t, [])
      else
        let t1 = t\<lparr>status := Analyzing\<rparr> in
        if \<not> has_context tk then (t1, [])
        else
          (case outcome tk of
             Inr (sc, rsn) \<Rightarrow>
               let t2 = t1\<lparr>status := Idle, errorMessage := [], focusScore := sc\<rparr>;
                   dataPoint = \<lparr>timestamp = now tk, score = sc\<rparr>;
                   cb0 = [OnFocusUpdate dataPoint]
               in
                 if sc < 60 then
                   let t3 = t2\<lparr>lowFocusCounter := lowFocusCounter t2 + 1\<rparr>;
                       cb1 = (if lowFocusCounter t3 = 1
                              then [OnLowFocus (timestamp dataPoint) sc] else [])
                   in
                     if sc = 0 \<and> \<not> teacherAlertSent t3
                     then (t3\<lparr>teacherAlertSent := True\<rparr>,
                           cb0 @ cb1 @ [SendFocusAlertToTeacher cname])
                     else (t3, cb0 @ cb1)
                 else (t2\<lparr>lowFocusCounter := 0, teacherAlertSent := False\<rparr>, cb0)
           | Inl msg \<Rightarrow>
               (t1\<lparr>status := Error, errorMessage := msg, focusScore := 0\<rparr>,
                [OnApiError msg])))"

text \<open>
  The interval timer calls \<open>analyzeFrame\<close> again and again; nothing in the catch
  branch clears it. The ticks are applied in the order in which their classifications
  return, and the result lists the calls of every tick.
\<close>

fun run_frames :: "string \<Rightarrow> frame_tick list \<Rightarrow> FocusTracker \<Rightarrow> FocusTracker \<times> callback list list" where
  "run_frames cname [] t = (t, [])"
| "run_frames cname (tk # tks) t =
     (case analyzeFrame cname tk t of
        (t1, cbs) \<Rightarrow> (case run_frames cname tks t1 of (t2, rest) \<Rightarrow> (t2, cbs # rest)))"

text \<open>A tick whose frame was captured and classified, and the score it got.\<close>

definition classified :: "frame_tick \<Rightarrow> bool" where
  "classified tk = (ready tk \<and> has_context tk \<and> isl (outcome tk) = False)"

definition tick_score :: "frame_tick \<Rightarrow> real" where
  "tick_score tk = (case outcome tk of Inr (sc, rsn) \<Rightarrow> sc | Inl msg \<Rightarrow> 0)"

definition sample :: "nat \<Rightarrow> real \<Rightarrow> frame_tick" where
  "sample ts sc = \<lparr>ready = True, has_context = True, now = ts, outcome = Inr (sc, [])\<rparr>"

definition failed_sample :: "nat \<Rightarrow> string \<Rightarrow> frame_tick" where
  "failed_sample ts msg = \<lparr>ready = True, has_context = True, now = ts, outcome = Inl msg\<rparr>"

fun is_low_focus :: "callback \<Rightarrow> bool" where
  "is_low_focus (OnLowFocus ts sc) = True"
| "is_low_focus cb = False"

fun is_teacher_alert :: "callback \<Rightarrow> bool" where
  "is_teacher_alert (SendFocusAlertToTeacher cname) = True"
| "is_teacher_alert cb = False"

text \<open>The indices of the ticks at which a call of the given kind was made.\<close>

definition fired_at :: "(callback \<Rightarrow> bool) \<Rightarrow> callback list list \<Rightarrow> nat list" where
  "fired_at p cbss = filter (\<lambda>i. list_ex p (cbss ! i)) [0..<length cbss]"

definition fired_count :: "(callback \<Rightarrow> bool) \<Rightarrow> callback list list \<Rightarrow> nat" where
  "fired_count p cbss = length (filter p (concat cbss))"

text \<open>The tracker as the tick with index \<open>i\<close> finds it.\<close>

definition state_before :: "string \<Rightarrow> frame_tick list \<Rightarrow> FocusTracker \<Rightarrow> nat \<Rightarrow> FocusTracker" where
  "state_before cname tks t i = fst (run_frames cname (take i tks) t)"

text \<open>Two runs of samples, two seconds apart, with the scores of the specification's examples.\<close>

definition lecture_ticks :: "frame_tick list" where
  "lecture_ticks =
     [sample 1000 80, sample 3000 40, sample 5000 30, sample 7000 70, sample 9000 20]"

definition absent_ticks :: "frame_tick list" where
  "absent_ticks =
     [sample 1000 0, sample 3000 0, sample 5000 0, sample 7000 80, sample 9000 0]"


section \<open>AudioFrameEncoder: \<open>createBlob\<close>\<close>

text \<open>
  \<open>createBlob\<close> stores \<open>data[i] * 32768\<close> into an \<open>Int16Array\<close>. A sample is a
  32-bit float, and every 32-bit float is a real number whose product with \<open>2^15\<close>
  is exact in double precision, so a sample is modelled as the real number it denotes.
  Storing a number into an \<open>Int16Array\<close> applies ToInt16: the number is truncated
  towards zero and taken modulo \<open>2^16\<close> into the signed 16-bit range. There is no
  rounding to nearest and no clamping in the source.
\<close>

type_synonym int16 = "16 word"
type_synonym byte = "8 word"

definition trunc_toward_zero :: "real \<Rightarrow> int" where
  "trunc_toward_zero x = (if 0 \<le> x then \<lfloor>x\<rfloor> else \<lceil>x\<rceil>)"

definition ToInt16 :: "real \<Rightarrow> int16" where
  "ToInt16 x = word_of_int (trunc_toward_zero x)"

text \<open>
  \<open>new Uint8Array(int16.buffer)\<close> views the same buffer byte by byte, in the byte
  order of the platform: low byte first on the little-endian platforms that browsers
  run on.
\<close>

definition int16_bytes :: "int16 \<Rightarrow> byte list" where
  "int16_bytes w = [ucast w, ucast (drop_bit 8 w)]"

text \<open>
  The bytes that \<open>createBlob\<close> hands to \<open>encode\<close>. The blob it returns carries
  them in base64 (\<open>btoa\<close>) together with the MIME type; base64 is a transport
  wrapper around these bytes and is not modelled.
\<close>

record Blob =
  pcm :: "byte list"
  mimeType :: string

definition createBlob :: "real list \<Rightarrow> Blob" where
  "createBlob samples =
     \<lparr>pcm = concat (map (\<lambda>x. int16_bytes (ToInt16 (x * 32768))) samples),
      mimeType = ''audio/pcm;rate=16000''\<rparr>"

text \<open>
  The receiving side: 16-bit signed little-endian PCM read back as numbers in
  \<open>[-1, 1)\<close>. A trailing odd byte is dropped.
\<close>

fun decode_pcm :: "byte list \<Rightarrow> real list" where
  "decode_pcm (lo # hi # bs) = real_of_int (sint (word_cat hi lo :: int16)) / 32768 # decode_pcm bs"
| "decode_pcm bs = []"

text \<open>
  The quantisation as the specification words it, for comparison with \<open>ToInt16\<close>:
  \<open>round(float * 32768)\<close>, clamped to the range of a signed 16-bit integer.
\<close>

definition spec_quantize :: "real \<Rightarrow> int" where
  "spec_quantize x = max (- 32768) (min 32767 (round (x * 32768)))"

text \<open>A block of samples within \<open>[-1, 1)\<close>, among them both ends of the range.\<close>

definition quiet_block :: "real list" where
  "quiet_block = [- 1, - 1 / 2, 0, 3 / 131072, 1 / 4, 32767 / 32768]"


section \<open>The data model and the state of \<open>App\<close>\<close>

text \<open>
  The interfaces \<open>Session\<close> and \<open>RegisteredClass\<close> and the enumeration
  \<open>AppState\<close> of the module \<open>types\<close>, field by field. \<open>App\<close> keeps its
  session as a \<open>Partial<Session>\<close>, in which every field may be absent, and casts
  it to \<open>Session\<close> when it hands it on, so the record gives every field an option.
  The fields \<open>id\<close> and \<open>notes\<close> carry other names here (\<open>session_id\<close>,
  \<open>notes_text\<close>; for the class, \<open>class_id\<close>).
\<close>

datatype AppState = SETUP | ACTIVE | SUMMARY | LOADING

record Session =
  session_id :: "string option"
  className :: "string option"
  subject :: "string option"
  startTime :: "nat option"
  endTime :: "nat option"
  notes_text :: "string option"
  summary :: "string option"
  focusHistory :: "FocusDataPoint list option"
  lowFocusTimestamps :: "nat list option"
  fullTranscript :: "string option"

record RegisteredClass =
  class_id :: string
  name :: string
  sessions :: "Session list"

text \<open>
  \<open>sessionStateRef.current\<close>: the copy of the five state variables that an effect
  refreshes after every render, and that \<open>endSession\<close> reads.
\<close>

record SessionStateRef =
  ref_fullTranscript :: string
  ref_interimTranscript :: string
  ref_subject :: string
  ref_focusHistory :: "FocusDataPoint list"
  ref_lowFocusTimestamps :: "nat list"

text \<open>What the handlers do to the world outside the component state, in order.\<close>

datatype effect =
    GetUserMedia
  | StopTracks
  | Alert string
  | ConsoleError string
  | NewGoogleGenAI
  | NewAudioContext
  | LiveConnect
  | CloseAudioContext
  | CloseLiveSession
  | LocalStorageSet "RegisteredClass list"

text \<open>
  The state of \<open>App\<close> together with the state of the hook \<open>useSpeechRecognition\<close>
  that it owns: the React state variables (those mirrored into the reference carry the
  prefix \<open>st\<close>), the references, the variable \<open>currentTurnTranscription\<close> of the
  running \<open>startListening\<close> call, the number of pending 100 ms timers that clear the
  displayed interim text, and the log of effects.
\<close>

record App =
  appState :: AppState
  sessionData :: Session
  registeredClasses :: "RegisteredClass list"
  newClassName :: string
  viewingClassId :: "string option"
  isViewingSavedSummary :: bool
  st_subject :: string
  st_fullTranscript :: string
  st_interimTranscript :: string
  st_focusHistory :: "FocusDataPoint list"
  st_lowFocusTimestamps :: "nat list"
  isApiKeySelected :: "bool option"
  mediaStreamRef :: "nat option"
  sessionStateRef :: SessionStateRef
  isListening :: bool
  error :: "string option"
  sessionRef :: "nat option"
  audioContextRef :: bool
  currentTurnTranscription :: string
  pendingInterimClears :: nat
  effects :: "effect list"

text \<open>
  The world outside: the credential \<open>process.env.API_KEY\<close>, the outcome of
  \<open>getUserMedia\<close> (the message of the rejection, or a stream), whether the
  \<open>AudioContext\<close> constructor throws, the outcome of \<open>ai.live.connect\<close>, and for
  each generative call the outcome of its \<open>try\<close> block up to the parsed reply: the
  message of the error thrown, or the text (for the two JSON replies, the value of the
  field read, empty when the reply has none).
\<close>

record env =
  API_KEY :: "string option"
  getUserMedia :: "string + nat"
  newAudioContext :: "string option"
  liveConnect :: "string + nat"
  notesReply :: "string \<Rightarrow> string + string"
  summaryReply :: "string \<Rightarrow> string \<Rightarrow> string + string"
  subjectReply :: "string \<Rightarrow> string + string"
  classNameReply :: "string \<Rightarrow> string + string"

text \<open>\<open>!process.env.API_KEY\<close>: the variable is undefined or the empty string.\<close>

definition key_missing :: "env \<Rightarrow> bool" where
  "key_missing e = (API_KEY e = None \<or> API_KEY e = Some [])"

text \<open>\<open>Date.now().toString()\<close>: the decimal digits of a natural number.\<close>

fun string_of_nat :: "nat \<Rightarrow> string" where
  "string_of_nat n =
     (if n < 10 then [char_of (48 + n)]
      else string_of_nat (n div 10) @ [char_of (48 + n mod 10)])"

declare string_of_nat.simps [simp del]

definition emptySession :: Session where
  "emptySession = \<lparr>session_id = None, className = None, subject = None, startTime = None,
                    endTime = None, notes_text = None, summary = None, focusHistory = None,
                    lowFocusTimestamps = None, fullTranscript = None\<rparr>"

definition emptyRef :: SessionStateRef where
  "emptyRef = \<lparr>ref_fullTranscript = [], ref_interimTranscript = [], ref_subject = [],
                ref_focusHistory = [], ref_lowFocusTimestamps = []\<rparr>"

text \<open>The state in which the component is first rendered.\<close>

definition initialApp :: App where
  "initialApp =
     \<lparr>appState = SETUP, sessionData = emptySession, registeredClasses = [],
      newClassName = [], viewingClassId = None, isViewingSavedSummary = False,
      st_subject = [], st_fullTranscript = [], st_interimTranscript = [],
      st_focusHistory = [], st_lowFocusTimestamps = [], isApiKeySelected = None,
      mediaStreamRef = None, sessionStateRef = emptyRef, isListening = False,
      error = None, sessionRef = None, audioContextRef = False,
      currentTurnTranscription = [], pendingInterimClears = 0, effects = []\<rparr>"

text \<open>The effect that copies the five state variables into the reference after a render.\<close>

definition syncSessionStateRef :: "App \<Rightarrow> App" where
  "syncSessionStateRef s =
     s\<lparr>sessionStateRef :=
          \<lparr>ref_fullTranscript = st_fullTranscript s,
           ref_interimTranscript = st_interimTranscript s,
           ref_subject = st_subject s,
           ref_focusHistory = st_focusHistory s,
           ref_lowFocusTimestamps = st_lowFocusTimestamps s\<rparr>\<rparr>"


section \<open>useSpeechRecognition: the transcription channel\<close>

text \<open>
  A handler is a closure over the state of the render that created it. The model lets
  a handler read the state at the moment it is called, and takes as an argument the
  one captured value that the source reads where it is known to be stale.
\<close>

text \<open>
  \<open>stopListening\<close>; its first argument is the value of \<open>isListening\<close> that the
  closure captured.
\<close>

definition stopListening :: "bool \<Rightarrow> App \<Rightarrow> App" where
  "stopListening listening s =
     (if \<not> listening then s
      else
        s\<lparr>isListening := False,
          audioContextRef := False,
          sessionRef := None,
          st_interimTranscript := [],
          effects := effects s
            @ (if audioContextRef s then [CloseAudioContext] else [])
            @ (if sessionRef s \<noteq> None then [CloseLiveSession] else [])\<rparr>)"

text \<open>
  \<open>startListening\<close>. The \<open>stopListening\<close> that its \<open>catch\<close> block calls is the
  closure of the same render, in which \<open>isListening\<close> was false (the call got past
  the first guard), so that call returns at once and is left out.
\<close>

definition startListening :: "env \<Rightarrow> nat \<Rightarrow> App \<Rightarrow> App" where
  "startListening e stream s =
     (if isListening s then s
      else if key_missing e then
        s\<lparr>error := Some (''Could not start transcription service: ''
                   @ ''API_KEY environment variable not set. Please select an API key.''),
          effects := effects s @ [ConsoleError ''Failed to start listening:'']\<rparr>
      else
        let s1 = s\<lparr>error := None, isListening := True, currentTurnTranscription := [],
                    effects := effects s @ [NewGoogleGenAI, NewAudioContext]\<rparr> in
        (case newAudioContext e of
           Some msg \<Rightarrow>
             s1\<lparr>error := Some (''Could not start transcription service: '' @ msg),
                effects := effects s1 @ [ConsoleError ''Failed to start listening:'']\<rparr>
         | None \<Rightarrow>
             let s2 = s1\<lparr>audioContextRef := True, effects := effects s1 @ [LiveConnect]\<rparr> in
             (case liveConnect e of
                Inl msg \<Rightarrow>
                  s2\<lparr>error := Some (''Could not start transcription service: '' @ msg),
                     effects := effects s2 @ [ConsoleError ''Failed to start listening:'']\<rparr>
              | Inr session \<Rightarrow> s2\<lparr>sessionRef := Some session\<rparr>)))"

text \<open>
  A message of the live session: \<open>serverContent.inputTranscription\<close>, if the message
  has one, with its \<open>text\<close>, if it has one, and the flag
  \<open>serverContent.turnComplete\<close>.
\<close>

record LiveServerMessage =
  inputTranscription :: "string option option"
  turnComplete :: bool

text \<open>
  What \<open>+=\<close> appends for the text of a transcription: the text, or the string
  \<open>undefined\<close> when the transcription has none.
\<close>

definition text_of :: "string option \<Rightarrow> string" where
  "text_of txt = (case txt of Some t \<Rightarrow> t | None \<Rightarrow> ''undefined'')"

text \<open>
  The calls that the channel makes to the orchestrator: \<open>onInterimTranscriptChange\<close>
  with the text of the turn so far, \<open>onTranscriptChunk\<close> with a completed turn, and
  the timer of 100 ms that will call \<open>onInterimTranscriptChange('')\<close>.
\<close>

datatype channel_call =
    InterimTranscriptChange string
  | TranscriptChunk string
  | ClearInterimLater

text \<open>
  \<open>onmessage\<close>, on the side of the channel: from the text of the turn so far (the
  variable \<open>currentTurnTranscription\<close>) to its new value and the calls made.
\<close>

definition onmessage_calls :: "LiveServerMessage \<Rightarrow> string \<Rightarrow> string \<times> channel_call list" where
  "onmessage_calls message turn0 =
     (case inputTranscription message of
        None \<Rightarrow> (turn0, [])
      | Some txt \<Rightarrow>
          let newTextPart = text_of txt;
              turn = turn0 @ newTextPart
          in
            if turnComplete message then
              ([], [InterimTranscriptChange turn]
                   @ (if trim turn \<noteq> [] then [TranscriptChunk (trim turn @ '' '')] else [])
                   @ [ClearInterimLater])
            else (turn, [InterimTranscriptChange turn]))"

text \<open>
  The orchestrator's side: \<open>App\<close> passes \<open>setInterimTranscript\<close> as
  \<open>onInterimTranscriptChange\<close>, which replaces the interim text, and
  \<open>handleTranscriptChunk\<close> as \<open>onTranscriptChunk\<close>, which appends the chunk to the
  committed transcript.
\<close>

definition handleTranscriptChunk :: "string \<Rightarrow> App \<Rightarrow> App" where
  "handleTranscriptChunk chunk s = s\<lparr>st_fullTranscript := st_fullTranscript s @ chunk\<rparr>"

fun handle_call :: "channel_call \<Rightarrow> App \<Rightarrow> App" where
  "handle_call (InterimTranscriptChange txt) s = s\<lparr>st_interimTranscript := txt\<rparr>"
| "handle_call (TranscriptChunk chunk) s = handleTranscriptChunk chunk s"
| "handle_call ClearInterimLater s = s\<lparr>pendingInterimClears := pendingInterimClears s + 1\<rparr>"

fun handle_calls :: "channel_call list \<Rightarrow> App \<Rightarrow> App" where
  "handle_calls [] s = s"
| "handle_calls (c # cs) s = handle_calls cs (handle_call c s)"

text \<open>One message, handled by the channel and then by the orchestrator.\<close>

definition onmessage :: "LiveServerMessage \<Rightarrow> App \<Rightarrow> App" where
  "onmessage message s =
     (case onmessage_calls message (currentTurnTranscription s) of
        (turn, calls) \<Rightarrow> handle_calls calls (s\<lparr>currentTurnTranscription := turn\<rparr>))"

text \<open>The timer set by a completed turn fires and clears the displayed interim text.\<close>

definition interimClearTimeout :: "App \<Rightarrow> App" where
  "interimClearTimeout s =
     (if pendingInterimClears s = 0 then s
      else s\<lparr>st_interimTranscript := [], pendingInterimClears := pendingInterimClears s - 1\<rparr>)"

text \<open>
  The messages of a session, handled in the order of their arrival, and the calls that
  the channel makes for them, starting from a given text of the turn.
\<close>

fun deliver :: "LiveServerMessage list \<Rightarrow> App \<Rightarrow> App" where
  "deliver [] s = s"
| "deliver (m # ms) s = deliver ms (onmessage m s)"

fun channel_calls :: "LiveServerMessage list \<Rightarrow> string \<Rightarrow> channel_call list" where
  "channel_calls [] turn0 = []"
| "channel_calls (m # ms) turn0 =
     (case onmessage_calls m turn0 of (turn, calls) \<Rightarrow> calls @ channel_calls ms turn)"

text \<open>
  The messages of one turn: each carries a transcription, and the last one, and only
  the last one, is flagged turn-complete.
\<close>

definition interim :: "string option \<Rightarrow> LiveServerMessage" where
  "interim txt = \<lparr>inputTranscription = Some txt, turnComplete = False\<rparr>"

definition completing :: "string option \<Rightarrow> LiveServerMessage" where
  "completing txt = \<lparr>inputTranscription = Some txt, turnComplete = True\<rparr>"

definition turn_messages :: "string option list \<Rightarrow> string option \<Rightarrow> LiveServerMessage list" where
  "turn_messages parts part = map interim parts @ [completing part]"

text \<open>The cumulative texts of a turn: after each part, the parts so far, concatenated.\<close>

fun cumulative :: "string \<Rightarrow> string option list \<Rightarrow> string list" where
  "cumulative acc [] = []"
| "cumulative acc (p # ps) = (acc @ text_of p) # cumulative (acc @ text_of p) ps"

fun interim_texts :: "channel_call list \<Rightarrow> string list" where
  "interim_texts [] = []"
| "interim_texts (InterimTranscriptChange txt # cs) = txt # interim_texts cs"
| "interim_texts (c # cs) = interim_texts cs"

fun chunks :: "channel_call list \<Rightarrow> string list" where
  "chunks [] = []"
| "chunks (TranscriptChunk chunk # cs) = chunk # chunks cs"
| "chunks (c # cs) = chunks cs"


section \<open>geminiService: the generative calls of the finalisation\<close>

text \<open>
  Each call returns a canned value on a blank input, then asks \<open>getAiClient\<close> for a
  client, which throws when the credential is missing, then makes the request. An error
  is modelled by its message, the only part that the callers read.
\<close>

definition getAiClient :: "env \<Rightarrow> string + unit" where
  "getAiClient e =
     (if key_missing e
      then Inl (''API_KEY environment variable not set. ''
                @ ''Please select an API key in the application.'')
      else Inr ())"

definition structureNotes :: "env \<Rightarrow> string \<Rightarrow> string + string" where
  "structureNotes e txt =
     (if trim txt = [] then Inr []
      else (case getAiClient e of Inl err \<Rightarrow> Inl err | Inr ai \<Rightarrow> notesReply e txt))"

definition generateFinalSummary :: "env \<Rightarrow> string \<Rightarrow> string \<Rightarrow> string + string" where
  "generateFinalSummary e transcript subj =
     (if trim transcript = [] then Inr ''No content to summarize.''
      else (case getAiClient e of Inl err \<Rightarrow> Inl err | Inr ai \<Rightarrow> summaryReply e transcript subj))"

definition identifySubject :: "env \<Rightarrow> string \<Rightarrow> string + string" where
  "identifySubject e txt =
     (if trim txt = [] then Inr ''Unknown''
      else (case getAiClient e of
              Inl err \<Rightarrow> Inl err
            | Inr ai \<Rightarrow>
                (case subjectReply e txt of
                   Inl err \<Rightarrow> Inl err
                 | Inr subj \<Rightarrow> Inr (if subj = [] then ''Unknown'' else subj))))"

definition generateClassNameFromTranscript :: "env \<Rightarrow> string \<Rightarrow> string + string" where
  "generateClassNameFromTranscript e transcript =
     (if trim transcript = [] then Inr ''Untitled Recording''
      else (case getAiClient e of
              Inl err \<Rightarrow> Inl err
            | Inr ai \<Rightarrow>
                (case classNameReply e transcript of
                   Inl err \<Rightarrow> Inl err
                 | Inr cn \<Rightarrow> Inr (if cn = [] then ''Untitled Recording'' else cn))))"


section \<open>App: the session orchestrator\<close>

text \<open>
  \<open>handleApiError\<close>. Its closure captured \<open>appState\<close> (the callback depends on it)
  and, with \<open>stopListening\<close>, a value of \<open>isListening\<close>; both are arguments.
\<close>

definition is_auth_error :: "string \<Rightarrow> bool" where
  "is_auth_error msg =
     (includes_str msg ''Requested entity was not found''
      \<or> includes_str msg ''API key not valid'')"

definition handleApiError :: "AppState \<Rightarrow> bool \<Rightarrow> string \<Rightarrow> App \<Rightarrow> App" where
  "handleApiError seenState listening msg s =
     (if is_auth_error msg then
        let s1 = s\<lparr>isApiKeySelected := Some False,
                    effects := effects s
                      @ [Alert (''The selected API key appears to be invalid. ''
                                @ ''Please select another key to continue.'')]\<rparr>
        in
          if seenState = ACTIVE then
            let s2 = stopListening listening s1;
                s3 = (case mediaStreamRef s2 of
                        Some stream \<Rightarrow> s2\<lparr>mediaStreamRef := None,
                                           effects := effects s2 @ [StopTracks]\<rparr>
                      | None \<Rightarrow> s2)
            in s3\<lparr>appState := SETUP\<rparr>
          else s1
      else s)"

text \<open>
  \<open>startSession\<close>: the media devices are asked for first; only then does
  \<open>startListening\<close> look at the credential.
\<close>

definition startSession :: "env \<Rightarrow> nat \<Rightarrow> RegisteredClass \<Rightarrow> App \<Rightarrow> App" where
  "startSession e clock cls s =
     (let s0 = s\<lparr>effects := effects s @ [GetUserMedia]\<rparr> in
      case getUserMedia e of
        Inl msg \<Rightarrow>
          s0\<lparr>effects := effects s0
                @ [Alert (''Could not start session. Please ensure camera and microphone ''
                          @ ''access are allowed. Error: '' @ msg)]\<rparr>
      | Inr stream \<Rightarrow>
          startListening e stream
            (s0\<lparr>mediaStreamRef := Some stream,
                appState := ACTIVE,
                isViewingSavedSummary := False,
                st_subject := [],
                sessionData := emptySession
                  \<lparr>session_id := Some (string_of_nat clock),
                   className := Some (name cls),
                   subject := Some [],
                   startTime := Some clock\<rparr>,
                st_focusHistory := [],
                st_lowFocusTimestamps := [],
                st_fullTranscript := [],
                st_interimTranscript := []\<rparr>))"

text \<open>
  The final transcript of \<open>endSession\<close>: the committed transcript, a space and the
  interim text, as the reference holds them, trimmed as a whole.
\<close>

definition finalTranscript_of :: "App \<Rightarrow> string" where
  "finalTranscript_of s =
     trim (ref_fullTranscript (sessionStateRef s) @ '' ''
           @ ref_interimTranscript (sessionStateRef s))"

definition subject_of :: "Session \<Rightarrow> string" where
  "subject_of sd = (case subject sd of Some subj \<Rightarrow> subj | None \<Rightarrow> [])"

text \<open>
  The body of the \<open>try\<close> block of \<open>endSession\<close>, in two steps. First, for a
  Quick Record session with a transcript of more than 50 characters, a class name is
  generated and, when no subject is known, the subject is identified. Then the notes
  and the summary are generated. The first error thrown by a call leaves the block; the
  filled session is built only after the last call has returned.
\<close>

definition resolveClassAndSubject :: "env \<Rightarrow> Session \<Rightarrow> string \<Rightarrow> string \<Rightarrow> Session \<Rightarrow> string + Session" where
  "resolveClassAndSubject e sd finalTranscript finalSubject finalSessionData =
     (if className sd = Some ''Quick Record'' \<and> 50 < length (trim finalTranscript) then
        (case generateClassNameFromTranscript e finalTranscript of
           Inl err \<Rightarrow> Inl err
         | Inr generatedClassName \<Rightarrow>
             let fsd = finalSessionData\<lparr>className := Some generatedClassName\<rparr> in
             if finalSubject = [] \<or> finalSubject = ''Unknown''
                \<or> finalSubject = ''Not detected''
             then (case identifySubject e finalTranscript of
                     Inl err \<Rightarrow> Inl err
                   | Inr subj \<Rightarrow> Inr (fsd\<lparr>subject := Some subj\<rparr>))
             else Inr fsd)
      else Inr finalSessionData)"

definition finalize :: "env \<Rightarrow> Session \<Rightarrow> string \<Rightarrow> string \<Rightarrow> Session \<Rightarrow> string + Session" where
  "finalize e sd finalTranscript finalSubject finalSessionData =
     (case resolveClassAndSubject e sd finalTranscript finalSubject finalSessionData of
        Inl err \<Rightarrow> Inl err
      | Inr fsd \<Rightarrow>
          (case structureNotes e finalTranscript of
             Inl err \<Rightarrow> Inl err
           | Inr finalNotes \<Rightarrow>
               (case generateFinalSummary e finalTranscript (subject_of fsd) of
                  Inl err \<Rightarrow> Inl err
                | Inr finalSummary \<Rightarrow>
                    Inr (fsd\<lparr>notes_text := Some finalNotes, summary := Some finalSummary\<rparr>))))"

definition endSession :: "env \<Rightarrow> nat \<Rightarrow> App \<Rightarrow> App" where
  "endSession e clock s =
     (let s1 = stopListening (isListening s) s;
          s2 = (case mediaStreamRef s1 of
                  Some stream \<Rightarrow> s1\<lparr>mediaStreamRef := None, effects := effects s1 @ [StopTracks]\<rparr>
                | None \<Rightarrow> s1);
          s3 = s2\<lparr>appState := LOADING\<rparr>;
          finalTranscript = finalTranscript_of s3;
          finalSubject = ref_subject (sessionStateRef s3);
          finalSessionData = (sessionData s)
            \<lparr>endTime := Some clock,
             focusHistory := Some (ref_focusHistory (sessionStateRef s3)),
             lowFocusTimestamps := Some (ref_lowFocusTimestamps (sessionStateRef s3)),
             fullTranscript := Some finalTranscript,
             subject := Some (if finalSubject = [] then ''Not detected'' else finalSubject)\<rparr>
      in
        case finalize e (sessionData s) finalTranscript finalSubject finalSessionData of
          Inr filled \<Rightarrow> s3\<lparr>sessionData := filled, appState := SUMMARY\<rparr>
        | Inl err \<Rightarrow> (handleApiError (appState s) (isListening s) err s3)\<lparr>appState := SETUP\<rparr>)"


section \<open>App: the class library\<close>

definition handleAddClass :: "nat \<Rightarrow> App \<Rightarrow> App" where
  "handleAddClass clock s =
     (if trim (newClassName s) = [] then
        s\<lparr>effects := effects s @ [Alert ''Please provide a name for the class.'']\<rparr>
      else
        let newClass = \<lparr>class_id = string_of_nat clock, name = trim (newClassName s),
                        sessions = []\<rparr>;
            updatedClasses = registeredClasses s @ [newClass]
        in s\<lparr>registeredClasses := updatedClasses,
              newClassName := [],
              effects := effects s @ [LocalStorageSet updatedClasses]\<rparr>)"

definition handleDeleteClass :: "string \<Rightarrow> App \<Rightarrow> App" where
  "handleDeleteClass cid s =
     (let s1 = (if viewingClassId s = Some cid then s\<lparr>viewingClassId := None\<rparr> else s);
          updatedClasses = filter (\<lambda>c. class_id c \<noteq> cid) (registeredClasses s)
      in s1\<lparr>registeredClasses := updatedClasses,
             effects := effects s1 @ [LocalStorageSet updatedClasses]\<rparr>)"

text \<open>
  \<open>handleSaveSession\<close>. \<open>!targetClassName\<close> holds for an absent and for an empty
  name. \<open>find\<close> returns the first class whose lower-cased name equals the lower-cased
  name of the session; \<open>map\<close> then extends every class that carries the identifier
  of that class.
\<close>

definition handleSaveSession :: "nat \<Rightarrow> Session \<Rightarrow> App \<Rightarrow> App" where
  "handleSaveSession clock sessionToSave s =
     (case className sessionToSave of
        None \<Rightarrow>
          s\<lparr>appState := SETUP,
            effects := effects s @ [ConsoleError ''Session has no class name, cannot save.'',
                                    Alert ''Cannot save session: Class name is missing.'']\<rparr>
      | Some targetClassName \<Rightarrow>
          if targetClassName = [] then
            s\<lparr>appState := SETUP,
              effects := effects s @ [ConsoleError ''Session has no class name, cannot save.'',
                                      Alert ''Cannot save session: Class name is missing.'']\<rparr>
          else
            let updatedClasses =
                  (case find (\<lambda>c. toLowerCase (name c) = toLowerCase targetClassName)
                          (registeredClasses s) of
                     Some targetClass \<Rightarrow>
                       map (\<lambda>cls. if class_id cls = class_id targetClass
                                  then cls\<lparr>sessions := sessions cls
                                         @ [sessionToSave\<lparr>className := Some (name cls)\<rparr>]\<rparr>
                                  else cls)
                         (registeredClasses s)
                   | None \<Rightarrow>
                       registeredClasses s
                       @ [\<lparr>class_id = string_of_nat clock, name = targetClassName,
                            sessions = [sessionToSave\<lparr>className := Some targetClassName\<rparr>]\<rparr>])
            in s\<lparr>registeredClasses := updatedClasses,
                  appState := SETUP,
                  viewingClassId := None,
                  effects := effects s @ [LocalStorageSet updatedClasses]\<rparr>)"

text \<open>
  The invariant of the class library: a session stored in a class carries the name of
  that class.
\<close>

definition library_ok :: "RegisteredClass list \<Rightarrow> bool" where
  "library_ok classes =
     (\<forall>c\<in>set classes. \<forall>x\<in>set (sessions c). className x = Some (name c))"


section \<open>Auxiliary notions for the statements\<close>

text \<open>A string that consists of white space only; \<open>trim\<close> gives the empty string on it.\<close>

definition blank :: "string \<Rightarrow> bool" where
  "blank s = list_all is_ws s"

text \<open>
  The state after the tear-down steps of \<open>endSession\<close> (the channel is closed, the
  tracks are stopped, the state is \<open>LOADING\<close>), and the session record that
  \<open>endSession\<close> hands to its \<open>try\<close> block.
\<close>

definition teardown :: "App \<Rightarrow> App" where
  "teardown s =
     (let s1 = stopListening (isListening s) s;
          s2 = (case mediaStreamRef s1 of
                  Some stream \<Rightarrow> s1\<lparr>mediaStreamRef := None, effects := effects s1 @ [StopTracks]\<rparr>
                | None \<Rightarrow> s1)
      in s2\<lparr>appState := LOADING\<rparr>)"

definition sealed :: "nat \<Rightarrow> App \<Rightarrow> Session" where
  "sealed clock s =
     (sessionData s)
       \<lparr>endTime := Some clock,
        focusHistory := Some (ref_focusHistory (sessionStateRef s)),
        lowFocusTimestamps := Some (ref_lowFocusTimestamps (sessionStateRef s)),
        fullTranscript := Some (finalTranscript_of s),
        subject := Some (if ref_subject (sessionStateRef s) = [] then ''Not detected''
                         else ref_subject (sessionStateRef s))\<rparr>"

text \<open>
  A world in which every call succeeds, one in which the summary request fails, and
  a running session with a committed turn and an unfinished one.
\<close>

definition working_env :: env where
  "working_env =
     \<lparr>API_KEY = Some ''key'', getUserMedia = Inr 1, newAudioContext = None, liveConnect = Inr 1,
      notesReply = (\<lambda>t. Inr ''<h2>Notes</h2>''),
      summaryReply = (\<lambda>t subj. Inr ''<h1>Summary</h1>''),
      subjectReply = (\<lambda>t. Inr ''Biology''),
      classNameReply = (\<lambda>t. Inr ''Cell Biology'')\<rparr>"

definition summary_fails_env :: env where
  "summary_fails_env = working_env\<lparr>summaryReply := (\<lambda>t subj. Inl ''503 unavailable'')\<rparr>"

definition recording_app :: App where
  "recording_app =
     initialApp
       \<lparr>appState := ACTIVE,
        isListening := True,
        mediaStreamRef := Some 1,
        sessionData := emptySession\<lparr>session_id := Some ''1000'', className := Some ''Biology 101'',
                                    subject := Some [], startTime := Some 1000\<rparr>,
        st_fullTranscript := ''hello '',
        st_interimTranscript := ''wor'',
        sessionStateRef := emptyRef\<lparr>ref_fullTranscript := ''hello '',
                                    ref_interimTranscript := ''wor''\<rparr>\<rparr>"

text \<open>A world without a credential, and a registered class.\<close>

definition no_key_env :: env where
  "no_key_env = working_env\<lparr>API_KEY := None\<rparr>"

definition biology :: RegisteredClass where
  "biology = \<lparr>class_id = ''1000'', name = ''Biology 101'', sessions = []\<rparr>"

text \<open>A library of two classes, and a session whose class name differs from one of them in case only.\<close>

definition two_classes :: "RegisteredClass list" where
  "two_classes =
     [\<lparr>class_id = ''1000'', name = ''Biology 101'', sessions = []\<rparr>,
      \<lparr>class_id = ''2000'', name = ''Math'', sessions = []\<rparr>]"

definition math_session :: Session where
  "math_session = emptySession\<lparr>session_id := Some ''3000'', className := Some ''math'',
                                fullTranscript := Some ''two plus two''\<rparr>"

definition library_app :: App where
  "library_app = initialApp\<lparr>appState := SUMMARY, registeredClasses := two_classes\<rparr>"

text \<open>
  What \<open>App\<close> renders: the key screen unless \<open>isApiKeySelected\<close> is true, and the
  \<open>FocusTracker\<close> only in the state \<open>ACTIVE\<close>. The sampler's timer lives as long
  as the component is rendered. A running session in which it is rendered.
\<close>

definition focusTrackerRendered :: "App \<Rightarrow> bool" where
  "focusTrackerRendered s = (isApiKeySelected s = Some True \<and> appState s = ACTIVE)"

definition sampling_app :: App where
  "sampling_app = recording_app\<lparr>isApiKeySelected := Some True\<rparr>"



section \<open>Properties of the streak logic\<close>

lemma run_frames_append:
  "run_frames cn (xs @ ys) t =
     (case run_frames cn xs t of
        (t1, c1) \<Rightarrow> (case run_frames cn ys t1 of (t2, c2) \<Rightarrow> (t2, c1 @ c2)))"
  by (induction xs arbitrary: t) (simp_all add: case_prod_beta)

lemma length_run_frames: "length (snd (run_frames cn tks t)) = length tks"
  by (induction tks arbitrary: t) (simp_all add: case_prod_beta)

lemma state_before_0: "state_before cn tks t 0 = t"
  by (simp add: state_before_def)

lemma state_before_Suc:
  assumes "i < length tks"
  shows "state_before cn tks t (Suc i) = fst (analyzeFrame cn (tks ! i) (state_before cn tks t i))"
proof -
  have "take (Suc i) tks = take i tks @ [tks ! i]"
    using assms by (rule take_Suc_conv_app_nth)
  then show ?thesis
    by (simp add: state_before_def run_frames_append case_prod_beta)
qed

lemma nth_run_frames:
  "i < length tks \<Longrightarrow>
   snd (run_frames cn tks t) ! i = snd (analyzeFrame cn (tks ! i) (state_before cn tks t i))"
proof (induction tks arbitrary: t i)
  case Nil
  then show ?case by simp
next
  case (Cons tk tks)
  show ?case
  proof (cases i)
    case 0
    then show ?thesis by (simp add: state_before_def case_prod_beta)
  next
    case (Suc j)
    with Cons.prems have "j < length tks" by simp
    from Cons.IH [OF this, of "fst (analyzeFrame cn tk t)"] Suc
    show ?thesis by (simp add: state_before_def case_prod_beta)
  qed
qed

lemma counter_step:
  "classified tk \<Longrightarrow>
   lowFocusCounter (fst (analyzeFrame cn tk t)) =
     (if tick_score tk < 60 then lowFocusCounter t + 1 else 0)"
  by (cases "outcome tk") (auto simp: classified_def tick_score_def analyzeFrame_def Let_def split: prod.splits)

lemma low_focus_step:
  "classified tk \<Longrightarrow>
   list_ex is_low_focus (snd (analyzeFrame cn tk t)) =
     (tick_score tk < 60 \<and> lowFocusCounter t = 0)"
  by (cases "outcome tk") (auto simp: classified_def tick_score_def analyzeFrame_def Let_def split: prod.splits)

lemma teacher_alert_step:
  "classified tk \<Longrightarrow>
   list_ex is_teacher_alert (snd (analyzeFrame cn tk t)) =
     (tick_score tk = 0 \<and> \<not> teacherAlertSent t)"
  by (cases "outcome tk") (auto simp: classified_def tick_score_def analyzeFrame_def Let_def split: prod.splits)

lemma flag_step:
  "classified tk \<Longrightarrow>
   teacherAlertSent (fst (analyzeFrame cn tk t)) =
     (tick_score tk < 60 \<and> (teacherAlertSent t \<or> tick_score tk = 0))"
  by (cases "outcome tk") (auto simp: classified_def tick_score_def analyzeFrame_def Let_def split: prod.splits)

lemma count_step_le1:
  "length (filter is_low_focus (snd (analyzeFrame cn tk t))) \<le> Suc 0"
  "length (filter is_teacher_alert (snd (analyzeFrame cn tk t))) \<le> Suc 0"
  by (cases "outcome tk"; auto simp: analyzeFrame_def Let_def split: prod.splits)+


lemma fired_count_eq_length_fired_at:
  assumes "\<forall>cbs\<in>set cbss. length (filter p cbs) \<le> 1"
  shows "fired_count p cbss = length (fired_at p cbss)"
  using assms
proof (induction cbss rule: rev_induct)
  case Nil
  then show ?case by (simp add: fired_count_def fired_at_def)
next
  case (snoc cbs cbss)
  have old: "filter (\<lambda>i. list_ex p ((cbss @ [cbs]) ! i)) [0..<length cbss] =
             filter (\<lambda>i. list_ex p (cbss ! i)) [0..<length cbss]"
    by (rule filter_cong) (auto simp: nth_append)
  have one: "length (filter p cbs) = (if list_ex p cbs then 1 else 0)"
  proof (cases "list_ex p cbs")
    case True
    then have "filter p cbs \<noteq> []" by (simp add: list_ex_iff filter_empty_conv)
    then have "length (filter p cbs) \<noteq> 0" by simp
    moreover have "length (filter p cbs) \<le> 1" using snoc.prems by simp
    ultimately have "length (filter p cbs) = 1" by linarith
    then show ?thesis using True by simp
  next
    case False
    then show ?thesis by (simp add: list_ex_iff filter_empty_conv)
  qed
  from snoc have "fired_count p cbss = length (fired_at p cbss)" by simp
  then show ?case
    using one by (simp add: fired_count_def fired_at_def old)
qed

lemma run_frames_at_most_one:
  "\<forall>cbs\<in>set (snd (run_frames cn tks t)). length (filter is_low_focus cbs) \<le> 1"
  "\<forall>cbs\<in>set (snd (run_frames cn tks t)). length (filter is_teacher_alert cbs) \<le> 1"
  by (induction tks arbitrary: t) (simp_all add: case_prod_beta count_step_le1)

lemma fired_at_run_frames:
  "fired_at p (snd (run_frames cn tks t)) =
     filter (\<lambda>i. list_ex p (snd (analyzeFrame cn (tks ! i) (state_before cn tks t i))))
       [0..<length tks]"
  unfolding fired_at_def length_run_frames
  by (rule filter_cong) (simp_all add: nth_run_frames)

lemma counter_zero_iff:
  assumes "\<forall>tk\<in>set tks. classified tk" and "i \<le> length tks"
  shows "lowFocusCounter (state_before cn tks mounted i) = 0 \<longleftrightarrow>
           (i = 0 \<or> 60 \<le> tick_score (tks ! (i - 1)))"
proof (cases i)
  case 0
  then show ?thesis by (simp add: state_before_0 mounted_def)
next
  case (Suc j)
  with assms have j: "j < length tks" and c: "classified (tks ! j)" by auto
  show ?thesis
    using Suc by (simp add: state_before_Suc [OF j] counter_step [OF c] not_less)
qed

lemma flag_iff:
  assumes "\<forall>tk\<in>set tks. classified tk" and "i \<le> length tks"
  shows "teacherAlertSent (state_before cn tks mounted i) \<longleftrightarrow>
           (\<exists>j<i. tick_score (tks ! j) = 0 \<and> (\<forall>k. j < k \<and> k < i \<longrightarrow> tick_score (tks ! k) < 60))"
  using assms(2)
proof (induction i)
  case 0
  then show ?case by (simp add: state_before_0 mounted_def)
next
  case (Suc i)
  then have i: "i < length tks" and c: "classified (tks ! i)" using assms(1) by auto
  let ?sc = "\<lambda>n. tick_score (tks ! n)"
  have IH: "teacherAlertSent (state_before cn tks mounted i) \<longleftrightarrow>
           (\<exists>j<i. ?sc j = 0 \<and> (\<forall>k. j < k \<and> k < i \<longrightarrow> ?sc k < 60))"
    using Suc by simp
  have rec: "(\<exists>j<Suc i. ?sc j = 0 \<and> (\<forall>k. j < k \<and> k < Suc i \<longrightarrow> ?sc k < 60)) \<longleftrightarrow>
             (?sc i = 0 \<or> (?sc i < 60 \<and> (\<exists>j<i. ?sc j = 0 \<and> (\<forall>k. j < k \<and> k < i \<longrightarrow> ?sc k < 60))))"
    (is "?L \<longleftrightarrow> ?R")
  proof
    assume ?L
    then obtain j where j: "j < Suc i" "?sc j = 0" "\<forall>k. j < k \<and> k < Suc i \<longrightarrow> ?sc k < 60"
      by blast
    show ?R
    proof (cases "j = i")
      case True
      with j show ?thesis by simp
    next
      case False
      with j have "j < i" by simp
      with j show ?thesis by auto
    qed
  next
    assume ?R
    then show ?L
    proof
      assume "?sc i = 0"
      then show ?L by (intro exI [of _ i]) auto
    next
      assume "?sc i < 60 \<and> (\<exists>j<i. ?sc j = 0 \<and> (\<forall>k. j < k \<and> k < i \<longrightarrow> ?sc k < 60))"
      then obtain j where "j < i" "?sc j = 0" "\<forall>k. j < k \<and> k < i \<longrightarrow> ?sc k < 60" "?sc i < 60"
        by blast
      then show ?L by (intro exI [of _ j]) (auto simp: less_Suc_eq)
    qed
  qed
  show ?case
    unfolding rec state_before_Suc [OF i] flag_step [OF c] IH by auto
qed

text \<open>
  Claim C5. Let every tick of a run be captured and classified, starting from the freshly
  mounted tracker. A score below 60 adds one to the streak counter and any other score
  sets it to 0. The low-focus notification \<open>onLowFocus\<close> is made exactly at the
  ticks whose score is below 60 and which are the first tick or follow a score of 60 or
  more, at most once per tick. For the scores 80, 40, 30, 70, 20 these are the ticks 1
  and 4: two notifications, not three.
\<close>

theorem low_focus_edge_triggered:
  assumes "\<forall>tk\<in>set tks. classified tk"
  shows "fired_at is_low_focus (snd (run_frames cname tks mounted)) =
           filter (\<lambda>i. tick_score (tks ! i) < 60 \<and> (i = 0 \<or> 60 \<le> tick_score (tks ! (i - 1))))
             [0..<length tks]
         \<and> fired_count is_low_focus (snd (run_frames cname tks mounted)) =
           length (fired_at is_low_focus (snd (run_frames cname tks mounted)))
         \<and> (\<forall>i<length tks.
              lowFocusCounter (state_before cname tks mounted (Suc i)) =
                (if tick_score (tks ! i) < 60
                 then lowFocusCounter (state_before cname tks mounted i) + 1 else 0))"
proof (intro conjI allI impI)
  show "fired_at is_low_focus (snd (run_frames cname tks mounted)) =
           filter (\<lambda>i. tick_score (tks ! i) < 60 \<and> (i = 0 \<or> 60 \<le> tick_score (tks ! (i - 1))))
             [0..<length tks]"
    unfolding fired_at_run_frames
  proof (rule filter_cong [OF refl])
    fix i assume "i \<in> set [0..<length tks]"
    then have i: "i < length tks" by simp
    then have c: "classified (tks ! i)" using assms by simp
    show "list_ex is_low_focus (snd (analyzeFrame cname (tks ! i) (state_before cname tks mounted i))) =
          (tick_score (tks ! i) < 60 \<and> (i = 0 \<or> 60 \<le> tick_score (tks ! (i - 1))))"
      using counter_zero_iff [OF assms, of i cname] i
      by (simp add: low_focus_step [OF c])
  qed
next
  show "fired_count is_low_focus (snd (run_frames cname tks mounted)) =
           length (fired_at is_low_focus (snd (run_frames cname tks mounted)))"
    by (rule fired_count_eq_length_fired_at) (rule run_frames_at_most_one)
next
  fix i assume i: "i < length tks"
  then have c: "classified (tks ! i)" using assms by simp
  show "lowFocusCounter (state_before cname tks mounted (Suc i)) =
                (if tick_score (tks ! i) < 60
                 then lowFocusCounter (state_before cname tks mounted i) + 1 else 0)"
    by (simp only: state_before_Suc [OF i] counter_step [OF c])
qed

lemma upt_small:
  "[0..<1] = [0]" "[0..<2] = [0, 1]" "[0..<3] = [0, 1, 2]" "[0..<4] = [0, 1, 2, 3]"
  "[0..<5] = [0, 1, 2, 3, 4]"
  by (simp_all add: upt_rec)

lemma all_less_upt: "(\<forall>j<i. P j) = list_all P [0..<i]"
  by (auto simp: list_all_iff)

lemma ex_less_upt: "(\<exists>j<i. P j) = list_ex P [0..<i]"
  by (auto simp: list_ex_iff)

theorem low_focus_edge_triggered_witness:
  "list_all classified lecture_ticks \<and>
   fired_at is_low_focus (snd (run_frames ''Biology 101'' lecture_ticks mounted)) = [1, 4] \<and>
   fired_count is_low_focus (snd (run_frames ''Biology 101'' lecture_ticks mounted)) = 2"
proof -
  have h: "\<forall>tk\<in>set lecture_ticks. classified tk"
    by (simp add: lecture_ticks_def classified_def sample_def)
  have "filter (\<lambda>i. tick_score (lecture_ticks ! i) < 60 \<and>
                    (i = 0 \<or> 60 \<le> tick_score (lecture_ticks ! (i - 1))))
          [0..<length lecture_ticks] = [1, 4]"
    by (simp add: lecture_ticks_def upt_small tick_score_def sample_def)
  with low_focus_edge_triggered [OF h, of "''Biology 101''"] h show ?thesis
    by (simp add: list_all_iff)
qed

text \<open>
  Claim C6. Under the same conditions the teacher notification
  \<open>sendFocusAlertToTeacher\<close> is made exactly at the ticks whose score is 0 and
  which no earlier score of 0 reaches through scores below 60 only: every earlier 0 is
  separated from the tick by a score of 60 or more. So it fires once per low-focus
  streak, at the first 0 of the streak, and only a score of 60 or more arms it again.
  For the scores 0, 0, 0, 80, 0 these are the ticks 0 and 4: two notifications.
\<close>

theorem teacher_alert_once_per_streak:
  assumes "\<forall>tk\<in>set tks. classified tk"
  shows "fired_at is_teacher_alert (snd (run_frames cname tks mounted)) =
           filter (\<lambda>i. tick_score (tks ! i) = 0 \<and>
                        (\<forall>j<i. tick_score (tks ! j) = 0 \<longrightarrow>
                           (\<exists>k<i. j < k \<and> 60 \<le> tick_score (tks ! k))))
             [0..<length tks]
         \<and> fired_count is_teacher_alert (snd (run_frames cname tks mounted)) =
           length (fired_at is_teacher_alert (snd (run_frames cname tks mounted)))"
proof (intro conjI)
  show "fired_at is_teacher_alert (snd (run_frames cname tks mounted)) =
           filter (\<lambda>i. tick_score (tks ! i) = 0 \<and>
                        (\<forall>j<i. tick_score (tks ! j) = 0 \<longrightarrow>
                           (\<exists>k<i. j < k \<and> 60 \<le> tick_score (tks ! k))))
             [0..<length tks]"
    unfolding fired_at_run_frames
  proof (rule filter_cong [OF refl])
    fix i assume "i \<in> set [0..<length tks]"
    then have i: "i < length tks" by simp
    then have c: "classified (tks ! i)" using assms by simp
    have "teacherAlertSent (state_before cname tks mounted i) \<longleftrightarrow>
           (\<exists>j<i. tick_score (tks ! j) = 0 \<and> (\<forall>k. j < k \<and> k < i \<longrightarrow> tick_score (tks ! k) < 60))"
      using flag_iff [OF assms, of i cname] i by simp
    then show "list_ex is_teacher_alert (snd (analyzeFrame cname (tks ! i) (state_before cname tks mounted i))) =
          (tick_score (tks ! i) = 0 \<and>
                        (\<forall>j<i. tick_score (tks ! j) = 0 \<longrightarrow>
                           (\<exists>k<i. j < k \<and> 60 \<le> tick_score (tks ! k))))"
      unfolding teacher_alert_step [OF c] by (auto simp: not_less)
  qed
next
  show "fired_count is_teacher_alert (snd (run_frames cname tks mounted)) =
           length (fired_at is_teacher_alert (snd (run_frames cname tks mounted)))"
    by (rule fired_count_eq_length_fired_at) (rule run_frames_at_most_one)
qed

theorem teacher_alert_once_per_streak_witness:
  "list_all classified absent_ticks \<and>
   fired_at is_teacher_alert (snd (run_frames ''Biology 101'' absent_ticks mounted)) = [0, 4] \<and>
   fired_count is_teacher_alert (snd (run_frames ''Biology 101'' absent_ticks mounted)) = 2"
proof -
  have h: "\<forall>tk\<in>set absent_ticks. classified tk"
    by (simp add: absent_ticks_def classified_def sample_def)
  have "filter (\<lambda>i. tick_score (absent_ticks ! i) = 0 \<and>
                    (\<forall>j<i. tick_score (absent_ticks ! j) = 0 \<longrightarrow>
                       (\<exists>k<i. j < k \<and> 60 \<le> tick_score (absent_ticks ! k))))
          [0..<length absent_ticks] = [0, 4]"
    by (simp add: absent_ticks_def all_less_upt ex_less_upt upt_small tick_score_def sample_def)
  with teacher_alert_once_per_streak [OF h, of "''Biology 101''"] h show ?thesis
    by (simp add: list_all_iff)
qed

lemma analyzeFrame_streak_only:
  assumes "lowFocusCounter t = lowFocusCounter t'" and "teacherAlertSent t = teacherAlertSent t'"
  shows "snd (analyzeFrame cn tk t) = snd (analyzeFrame cn tk t')
       \<and> lowFocusCounter (fst (analyzeFrame cn tk t)) = lowFocusCounter (fst (analyzeFrame cn tk t'))
       \<and> teacherAlertSent (fst (analyzeFrame cn tk t)) = teacherAlertSent (fst (analyzeFrame cn tk t'))"
  using assms
  by (cases "outcome tk") (auto simp: analyzeFrame_def Let_def split: prod.splits)

lemma run_frames_streak_only:
  "lowFocusCounter t = lowFocusCounter t' \<Longrightarrow> teacherAlertSent t = teacherAlertSent t' \<Longrightarrow>
   snd (run_frames cn tks t) = snd (run_frames cn tks t')
   \<and> lowFocusCounter (fst (run_frames cn tks t)) = lowFocusCounter (fst (run_frames cn tks t'))
   \<and> teacherAlertSent (fst (run_frames cn tks t)) = teacherAlertSent (fst (run_frames cn tks t'))"
proof (induction tks arbitrary: t t')
  case Nil
  then show ?case by simp
next
  case (Cons tk tks)
  from analyzeFrame_streak_only [OF Cons.prems, of cn tk]
  have step: "snd (analyzeFrame cn tk t) = snd (analyzeFrame cn tk t')"
    "lowFocusCounter (fst (analyzeFrame cn tk t)) = lowFocusCounter (fst (analyzeFrame cn tk t'))"
    "teacherAlertSent (fst (analyzeFrame cn tk t)) = teacherAlertSent (fst (analyzeFrame cn tk t'))"
    by simp_all
  from Cons.IH [OF step(2) step(3)] step(1)
  show ?case by (simp add: case_prod_beta)
qed

lemma analyzeFrame_failed:
  assumes "ready tk" and "has_context tk" and "outcome tk = Inl msg"
  shows "analyzeFrame cn tk t =
           (t\<lparr>status := Error, errorMessage := msg, focusScore := 0\<rparr>, [OnApiError msg])"
  using assms by (simp add: analyzeFrame_def)

lemma handleApiError_other:
  "\<not> is_auth_error msg \<Longrightarrow> handleApiError seen listening msg s = s"
  by (simp add: handleApiError_def)

lemma handleApiError_auth:
  assumes "is_auth_error msg"
  shows "isApiKeySelected (handleApiError seen listening msg s) = Some False"
    and "appState (handleApiError ACTIVE listening msg s) = SETUP"
    and "mediaStreamRef (handleApiError ACTIVE listening msg s) = None"
  using assms
  by (simp_all add: handleApiError_def Let_def stopListening_def split: option.splits)

text \<open>
  Claim C7, as the code has it. When the classification of a captured frame fails, the
  sampler reports the error through \<open>onApiError\<close>, shows the status \<open>error\<close> with
  the message and a displayed score of 0, and does nothing else: no focus sample is
  appended, the streak counter and the teacher-alert flag keep their values, and no
  low-focus or teacher notification is made. Ticks that follow make the calls, and leave
  the streak counter and the flag, that they would have made and left had the failed
  tick not happened. Whether ticks follow is decided by the handler behind
  \<open>onApiError\<close>, which is \<open>handleApiError\<close>: for an error that is not a recognised
  authentication error it leaves the state of \<open>App\<close> as it is, so the failure is not
  fatal; for a recognised authentication error it clears the credential flag, so that
  the sampler is no longer rendered, and, called from an active session, releases the
  media stream and returns to \<open>SETUP\<close>.
\<close>

theorem classification_failure_reported_not_counted:
  assumes "ready tk" and "has_context tk" and "outcome tk = Inl msg"
  shows "analyzeFrame cname tk t =
           (t\<lparr>status := Error, errorMessage := msg, focusScore := 0\<rparr>, [OnApiError msg])
       \<and> lowFocusCounter (fst (analyzeFrame cname tk t)) = lowFocusCounter t
       \<and> teacherAlertSent (fst (analyzeFrame cname tk t)) = teacherAlertSent t
       \<and> snd (run_frames cname (tk # tks) t) = [OnApiError msg] # snd (run_frames cname tks t)
       \<and> lowFocusCounter (fst (run_frames cname (tk # tks) t)) =
           lowFocusCounter (fst (run_frames cname tks t))
       \<and> teacherAlertSent (fst (run_frames cname (tk # tks) t)) =
           teacherAlertSent (fst (run_frames cname tks t))
       \<and> (\<not> is_auth_error msg \<longrightarrow> handleApiError seen listening msg s = s)
       \<and> (is_auth_error msg \<longrightarrow>
            isApiKeySelected (handleApiError seen listening msg s) = Some False
            \<and> \<not> focusTrackerRendered (handleApiError seen listening msg s)
            \<and> appState (handleApiError ACTIVE listening msg s) = SETUP
            \<and> mediaStreamRef (handleApiError ACTIVE listening msg s) = None)"
proof -
  let ?t1 = "t\<lparr>status := Error, errorMessage := msg, focusScore := 0\<rparr>"
  have step: "analyzeFrame cname tk t = (?t1, [OnApiError msg])"
    using assms by (rule analyzeFrame_failed)
  have same: "lowFocusCounter ?t1 = lowFocusCounter t" "teacherAlertSent ?t1 = teacherAlertSent t"
    by simp_all
  from run_frames_streak_only [OF same, of cname tks] step
  have sampler: "analyzeFrame cname tk t = (?t1, [OnApiError msg])
       \<and> lowFocusCounter (fst (analyzeFrame cname tk t)) = lowFocusCounter t
       \<and> teacherAlertSent (fst (analyzeFrame cname tk t)) = teacherAlertSent t
       \<and> snd (run_frames cname (tk # tks) t) = [OnApiError msg] # snd (run_frames cname tks t)
       \<and> lowFocusCounter (fst (run_frames cname (tk # tks) t)) =
           lowFocusCounter (fst (run_frames cname tks t))
       \<and> teacherAlertSent (fst (run_frames cname (tk # tks) t)) =
           teacherAlertSent (fst (run_frames cname tks t))"
    by (simp add: case_prod_beta)
  have other: "\<not> is_auth_error msg \<longrightarrow> handleApiError seen listening msg s = s"
    by (simp add: handleApiError_other)
  have auth: "is_auth_error msg \<longrightarrow>
            isApiKeySelected (handleApiError seen listening msg s) = Some False
            \<and> \<not> focusTrackerRendered (handleApiError seen listening msg s)
            \<and> appState (handleApiError ACTIVE listening msg s) = SETUP
            \<and> mediaStreamRef (handleApiError ACTIVE listening msg s) = None"
    by (simp add: handleApiError_auth focusTrackerRendered_def)
  from sampler other auth show ?thesis by blast
qed

theorem classification_failure_reported_not_counted_witness:
  "ready (failed_sample 3000 ''fetch failed'') \<and>
   has_context (failed_sample 3000 ''fetch failed'') \<and>
   outcome (failed_sample 3000 ''fetch failed'') = Inl ''fetch failed'' \<and>
   snd (run_frames ''Biology 101'' (failed_sample 3000 ''fetch failed'' # lecture_ticks) mounted) =
     [OnApiError ''fetch failed''] # snd (run_frames ''Biology 101'' lecture_ticks mounted) \<and>
   lowFocusCounter (fst (analyzeFrame ''Biology 101'' (failed_sample 3000 ''fetch failed'') mounted)) = 0 \<and>
   is_auth_error ''fetch failed'' = False \<and>
   focusTrackerRendered sampling_app \<and>
   handleApiError ACTIVE True ''fetch failed'' sampling_app = sampling_app \<and>
   outcome (failed_sample 5000 ''API key not valid. Please pass a valid API key.'') =
     Inl ''API key not valid. Please pass a valid API key.'' \<and>
   is_auth_error ''API key not valid. Please pass a valid API key.'' \<and>
   appState (handleApiError ACTIVE True ''API key not valid. Please pass a valid API key.''
              sampling_app) = SETUP \<and>
   focusTrackerRendered (handleApiError ACTIVE True
       ''API key not valid. Please pass a valid API key.'' sampling_app) = False"
proof -
  have h: "ready (failed_sample 3000 ''fetch failed'')"
    "has_context (failed_sample 3000 ''fetch failed'')"
    "outcome (failed_sample 3000 ''fetch failed'') = Inl ''fetch failed''"
    by (simp_all add: failed_sample_def)
  have g: "ready (failed_sample 5000 ''API key not valid. Please pass a valid API key.'')"
    "has_context (failed_sample 5000 ''API key not valid. Please pass a valid API key.'')"
    "outcome (failed_sample 5000 ''API key not valid. Please pass a valid API key.'') =
       Inl ''API key not valid. Please pass a valid API key.''"
    by (simp_all add: failed_sample_def)
  have n: "is_auth_error ''fetch failed'' = False"
    by (simp add: is_auth_error_def)
  have a: "is_auth_error ''API key not valid. Please pass a valid API key.''"
    by (simp add: is_auth_error_def)
  have r: "focusTrackerRendered sampling_app"
    by (simp add: focusTrackerRendered_def sampling_app_def recording_app_def initialApp_def)
  note main = classification_failure_reported_not_counted
    [OF h, of "''Biology 101''" mounted lecture_ticks ACTIVE True sampling_app]
  note fatal = classification_failure_reported_not_counted
    [OF g, of "''Biology 101''" mounted lecture_ticks ACTIVE True sampling_app]
  from main have calls:
    "snd (run_frames ''Biology 101'' (failed_sample 3000 ''fetch failed'' # lecture_ticks) mounted) =
       [OnApiError ''fetch failed''] # snd (run_frames ''Biology 101'' lecture_ticks mounted)"
    by blast
  from main have "lowFocusCounter
      (fst (analyzeFrame ''Biology 101'' (failed_sample 3000 ''fetch failed'') mounted)) =
       lowFocusCounter mounted"
    by blast
  then have counter: "lowFocusCounter
      (fst (analyzeFrame ''Biology 101'' (failed_sample 3000 ''fetch failed'') mounted)) = 0"
    by (simp add: mounted_def)
  from main n have kept: "handleApiError ACTIVE True ''fetch failed'' sampling_app = sampling_app"
    by blast
  from fatal a have stopped:
    "appState (handleApiError ACTIVE True ''API key not valid. Please pass a valid API key.''
               sampling_app) = SETUP"
    "focusTrackerRendered (handleApiError ACTIVE True
       ''API key not valid. Please pass a valid API key.'' sampling_app) = False"
    by blast+
  from h g(3) calls counter n r kept a stopped show ?thesis by (intro conjI)
qed

text \<open>
  The failure is not treated as a sample of score 0: from the mounted tracker a failed
  tick leaves the streak counter at 0 and only calls \<open>onApiError\<close>, where a sample
  of score 0 sets the counter to 1 and makes both notifications.
\<close>

theorem failure_as_zero_score_counterexample:
  "analyzeFrame ''Biology 101'' (failed_sample 3000 ''fetch failed'') mounted =
     (mounted\<lparr>status := Error, errorMessage := ''fetch failed'', focusScore := 0\<rparr>,
      [OnApiError ''fetch failed''])
   \<and> analyzeFrame ''Biology 101'' (sample 3000 0) mounted =
     (mounted\<lparr>focusScore := 0, lowFocusCounter := 1, teacherAlertSent := True\<rparr>,
      [OnFocusUpdate \<lparr>timestamp = 3000, score = 0\<rparr>, OnLowFocus 3000 0,
       SendFocusAlertToTeacher ''Biology 101''])
   \<and> lowFocusCounter (fst (analyzeFrame ''Biology 101'' (failed_sample 3000 ''fetch failed'') mounted)) = 0
   \<and> lowFocusCounter (fst (analyzeFrame ''Biology 101'' (sample 3000 0) mounted)) = 1"
  by (simp add: analyzeFrame_def failed_sample_def sample_def mounted_def)


section \<open>Properties of the audio frame encoder\<close>

lemma length_pcm: "length (pcm (createBlob samples)) = 2 * length samples"
  by (induction samples) (simp_all add: createBlob_def int16_bytes_def)

lemma word_cat_int16_bytes: "word_cat (ucast (drop_bit 8 w) :: byte) (ucast w :: byte) = (w :: int16)"
  by (rule bit_word_eqI) (auto simp: bit_simps)

lemma decode_pcm_createBlob:
  "decode_pcm (pcm (createBlob samples)) =
     map (\<lambda>x. real_of_int (sint (ToInt16 (x * 32768))) / 32768) samples"
  by (induction samples) (simp_all add: createBlob_def int16_bytes_def word_cat_int16_bytes)

lemma trunc_bounds:
  assumes "- 32768 \<le> y" and "y < 32768"
  shows "- 32768 \<le> trunc_toward_zero y \<and> trunc_toward_zero y < 32768"
  using assms unfolding trunc_toward_zero_def by (auto simp: floor_less_iff le_floor_iff ceiling_less_iff le_ceiling_iff) 

lemma trunc_close: "\<bar>real_of_int (trunc_toward_zero y) - y\<bar> < 1"
  unfolding trunc_toward_zero_def by (auto; linarith)

lemma sint_ToInt16:
  assumes "- 32768 \<le> y" and "y < 32768"
  shows "sint (ToInt16 y) = trunc_toward_zero y"
proof -
  from trunc_bounds [OF assms] have "- (2 ^ 15) \<le> trunc_toward_zero y" "trunc_toward_zero y < 2 ^ 15"
    by simp_all
  then have "signed_take_bit 15 (trunc_toward_zero y) = trunc_toward_zero y"
    by (rule signed_take_bit_int_eq_self)
  then show ?thesis
    by (simp add: ToInt16_def sint_sbintrunc')
qed

text \<open>
  Claim C4, as the code has it. A block of \<open>N\<close> samples gives \<open>2N\<close> bytes, tagged
  \<open>audio/pcm;rate=16000\<close>. For samples in \<open>[-1, 1)\<close> every pair of bytes is the
  little-endian 16-bit signed integer obtained by truncating \<open>sample * 32768\<close> towards
  zero (not by rounding to nearest, and with no clamping), and reading the bytes back
  gives values less than one quantisation step \<open>1/32768\<close> away from the samples. A
  sample of exactly 1 is outside this statement.
\<close>

theorem createBlob_pcm_roundtrip:
  "length (pcm (createBlob samples)) = 2 * length samples
   \<and> mimeType (createBlob samples) = ''audio/pcm;rate=16000''
   \<and> ((\<forall>x\<in>set samples. - 1 \<le> x \<and> x < 1) \<longrightarrow>
        decode_pcm (pcm (createBlob samples)) =
          map (\<lambda>x. real_of_int (trunc_toward_zero (x * 32768)) / 32768) samples
        \<and> (\<forall>i<length samples.
              \<bar>decode_pcm (pcm (createBlob samples)) ! i - samples ! i\<bar> < 1 / 32768))"
proof (intro conjI impI)
  show "length (pcm (createBlob samples)) = 2 * length samples"
    by (rule length_pcm)
  show "mimeType (createBlob samples) = ''audio/pcm;rate=16000''"
    by (simp add: createBlob_def)
next
  assume range: "\<forall>x\<in>set samples. - 1 \<le> x \<and> x < 1"
  have quant: "real_of_int (sint (ToInt16 (x * 32768))) / 32768 =
               real_of_int (trunc_toward_zero (x * 32768)) / 32768"
    if "x \<in> set samples" for x
  proof -
    from that range have "- 32768 \<le> x * 32768" "x * 32768 < 32768" by auto
    then show ?thesis by (simp add: sint_ToInt16)
  qed
  show dec: "decode_pcm (pcm (createBlob samples)) =
           map (\<lambda>x. real_of_int (trunc_toward_zero (x * 32768)) / 32768) samples"
    unfolding decode_pcm_createBlob by (rule map_cong [OF refl]) (rule quant)
  show "\<forall>i<length samples.
          \<bar>decode_pcm (pcm (createBlob samples)) ! i - samples ! i\<bar> < 1 / 32768"
  proof (intro allI impI)
    fix i assume i: "i < length samples"
    let ?x = "samples ! i"
    have "\<bar>real_of_int (trunc_toward_zero (?x * 32768)) - ?x * 32768\<bar> < 1"
      by (rule trunc_close)
    then have "\<bar>real_of_int (trunc_toward_zero (?x * 32768)) / 32768 - ?x\<bar> < 1 / 32768"
      by (simp add: field_simps abs_if split: if_splits)
    then show "\<bar>decode_pcm (pcm (createBlob samples)) ! i - samples ! i\<bar> < 1 / 32768"
      using i by (simp add: dec)
  qed
qed

theorem createBlob_pcm_roundtrip_witness:
  "list_all (\<lambda>x. - 1 \<le> x \<and> x < 1) quiet_block \<and>
   length (pcm (createBlob quiet_block)) = 12 \<and>
   decode_pcm (pcm (createBlob quiet_block)) = [- 1, - 1 / 2, 0, 0, 1 / 4, 32767 / 32768]"
proof -
  have h: "\<forall>x\<in>set quiet_block. - 1 \<le> x \<and> x < 1"
    by (simp add: quiet_block_def)
  have "map (\<lambda>x. real_of_int (trunc_toward_zero (x * 32768)) / 32768) quiet_block =
          [- 1, - 1 / 2, 0, 0, 1 / 4, 32767 / 32768]"
    by (simp add: quiet_block_def trunc_toward_zero_def)
  moreover have "length quiet_block = 6" by (simp add: quiet_block_def)
  ultimately show ?thesis
    using createBlob_pcm_roundtrip [of quiet_block] h by (simp add: list_all_iff)
qed

text \<open>
  The quantisation of the source is neither clamped nor rounded: the sample 1 is stored
  as \<open>-32768\<close> (bytes \<open>00 80\<close>) and reads back as \<open>-1\<close>, where rounding and
  clamping give \<open>32767\<close>; the sample \<open>3/131072\<close> is stored as 0, where rounding
  gives 1.
\<close>

theorem createBlob_round_clamp_counterexample:
  "pcm (createBlob [1]) = [0, 128]
   \<and> decode_pcm (pcm (createBlob [1])) = [- 1]
   \<and> sint (ToInt16 (1 * 32768)) = - 32768
   \<and> spec_quantize 1 = 32767
   \<and> sint (ToInt16 (3 / 131072 * 32768)) = 0
   \<and> spec_quantize (3 / 131072) = 1"
proof -
  have bytes: "pcm (createBlob [1]) = [0, 128]"
    by (simp add: createBlob_def int16_bytes_def ToInt16_def trunc_toward_zero_def)
  have decoded: "decode_pcm (pcm (createBlob [1])) = [- 1]"
    by (simp add: decode_pcm_createBlob ToInt16_def trunc_toward_zero_def)
  have wrapped: "sint (ToInt16 (1 * 32768)) = - 32768" "sint (ToInt16 (3 / 131072 * 32768)) = 0"
    by (simp_all add: ToInt16_def trunc_toward_zero_def)
  have worded: "spec_quantize 1 = 32767" "spec_quantize (3 / 131072) = 1"
    by (simp_all add: spec_quantize_def round_def)
  from bytes decoded wrapped worded show ?thesis by (intro conjI)
qed


section \<open>Properties of the transcript reconciliation\<close>

lemma deliver_append: "deliver (xs @ ys) s = deliver ys (deliver xs s)"
  by (induction xs arbitrary: s) simp_all

lemma onmessage_interim:
  "onmessage (interim txt) s =
     s\<lparr>currentTurnTranscription := currentTurnTranscription s @ text_of txt,
       st_interimTranscript := currentTurnTranscription s @ text_of txt\<rparr>"
  by (simp add: onmessage_def onmessage_calls_def interim_def Let_def)

lemma deliver_interims:
  "deliver (map interim parts) s =
     (if parts = [] then s
      else s\<lparr>currentTurnTranscription := currentTurnTranscription s @ concat (map text_of parts),
             st_interimTranscript := currentTurnTranscription s @ concat (map text_of parts)\<rparr>)"
proof (induction parts arbitrary: s)
  case Nil
  then show ?case by simp
next
  case (Cons p parts)
  show ?case by (simp add: Cons.IH onmessage_interim)
qed

lemma onmessage_completing:
  "onmessage (completing txt) s =
     (let turn = currentTurnTranscription s @ text_of txt in
      s\<lparr>currentTurnTranscription := [],
        st_interimTranscript := turn,
        st_fullTranscript := st_fullTranscript s @ (if trim turn = [] then [] else trim turn @ '' ''),
        pendingInterimClears := pendingInterimClears s + 1\<rparr>)"
  by (simp add: onmessage_def onmessage_calls_def completing_def handleTranscriptChunk_def Let_def)

lemma nth_cumulative:
  "k < length ps \<Longrightarrow> cumulative acc ps ! k = acc @ concat (map text_of (take (Suc k) ps))"
proof (induction ps arbitrary: acc k)
  case Nil
  then show ?case by simp
next
  case (Cons p ps)
  then show ?case by (cases k) simp_all
qed

lemma length_cumulative: "length (cumulative acc ps) = length ps"
  by (induction ps arbitrary: acc) simp_all

lemma cumulative_eq_Nil: "cumulative acc ps = [] \<longleftrightarrow> ps = []"
  by (cases ps) simp_all

lemma last_cumulative:
  "ps \<noteq> [] \<Longrightarrow> last (cumulative acc ps) = acc @ concat (map text_of ps)"
proof (induction ps arbitrary: acc)
  case Nil
  then show ?case by simp
next
  case (Cons p ps)
  then show ?case by (cases "ps = []") (simp_all add: cumulative_eq_Nil)
qed

lemma onmessage_calls_interim:
  "onmessage_calls (interim p) acc = (acc @ text_of p, [InterimTranscriptChange (acc @ text_of p)])"
  by (simp add: onmessage_calls_def interim_def Let_def)

lemma onmessage_calls_completing:
  "onmessage_calls (completing p) acc =
     ([], [InterimTranscriptChange (acc @ text_of p)]
          @ (if trim (acc @ text_of p) = [] then []
             else [TranscriptChunk (trim (acc @ text_of p) @ '' '')])
          @ [ClearInterimLater])"
  by (simp add: onmessage_calls_def completing_def Let_def)

lemma channel_calls_turn:
  "channel_calls (map interim parts @ [completing part]) acc =
     map InterimTranscriptChange (cumulative acc (parts @ [part]))
     @ (if trim (acc @ concat (map text_of (parts @ [part]))) = [] then []
        else [TranscriptChunk (trim (acc @ concat (map text_of (parts @ [part]))) @ '' '')])
     @ [ClearInterimLater]"
proof (induction parts arbitrary: acc)
  case Nil
  show ?case by (simp add: onmessage_calls_completing)
next
  case (Cons p parts)
  show ?case
    using Cons.IH [of "acc @ text_of p"] by (simp add: onmessage_calls_interim)
qed

lemma interim_texts_append: "interim_texts (xs @ ys) = interim_texts xs @ interim_texts ys"
  by (induction xs rule: interim_texts.induct) simp_all

lemma chunks_append: "chunks (xs @ ys) = chunks xs @ chunks ys"
  by (induction xs rule: chunks.induct) simp_all

lemma interim_texts_map: "interim_texts (map InterimTranscriptChange txts) = txts"
  by (induction txts) simp_all

lemma chunks_map_interim: "chunks (map InterimTranscriptChange txts) = []"
  by (induction txts) simp_all

lemma handle_interims:
  "handle_calls (map InterimTranscriptChange txts) s =
     (if txts = [] then s else s\<lparr>st_interimTranscript := last txts\<rparr>)"
  by (induction txts arbitrary: s) simp_all

text \<open>
  Claim C1. The channel calls \<open>onInterimTranscriptChange\<close> with the text of the turn
  so far, so the interim events of a turn carry cumulative texts. The orchestrator
  replaces its interim text by the text of every such event, whatever the texts are,
  and commits nothing. When the turn is complete, the channel hands over the last of
  these texts, trimmed and followed by one space, once (and nothing when it is blank),
  and the orchestrator appends it to the committed transcript. For the interim events
  \<open>a\<close>, \<open>a b\<close>, \<open>a b c\<close> the committed transcript gains exactly \<open>a b c \<close>.
\<close>

theorem interim_events_replace:
  assumes "currentTurnTranscription s = []"
  shows "interim_texts (channel_calls (turn_messages parts part) []) =
           cumulative [] (parts @ [part])
       \<and> chunks (channel_calls (turn_messages parts part) []) =
           (if trim (last (cumulative [] (parts @ [part]))) = [] then []
            else [trim (last (cumulative [] (parts @ [part]))) @ '' ''])
       \<and> (\<forall>txts. txts \<noteq> [] \<longrightarrow>
             st_interimTranscript (handle_calls (map InterimTranscriptChange txts) s) = last txts
             \<and> st_fullTranscript (handle_calls (map InterimTranscriptChange txts) s) =
                 st_fullTranscript s)
       \<and> (\<forall>k<length parts.
             st_interimTranscript (deliver (map interim (take (Suc k) parts)) s) =
               cumulative [] parts ! k
             \<and> st_fullTranscript (deliver (map interim (take (Suc k) parts)) s) =
                 st_fullTranscript s)
       \<and> st_fullTranscript (deliver (turn_messages parts part) s) =
           st_fullTranscript s
           @ (if trim (last (cumulative [] (parts @ [part]))) = [] then []
              else trim (last (cumulative [] (parts @ [part]))) @ '' '')
       \<and> currentTurnTranscription (deliver (turn_messages parts part) s) = []
       \<and> last (cumulative [] (parts @ [part])) = concat (map text_of (parts @ [part]))"
proof -
  have l: "last (cumulative [] (parts @ [part])) = concat (map text_of (parts @ [part]))"
    by (simp add: last_cumulative)
  have calls: "channel_calls (turn_messages parts part) [] =
     map InterimTranscriptChange (cumulative [] (parts @ [part]))
     @ (if trim (concat (map text_of (parts @ [part]))) = [] then []
        else [TranscriptChunk (trim (concat (map text_of (parts @ [part]))) @ '' '')])
     @ [ClearInterimLater]"
    unfolding turn_messages_def using channel_calls_turn [of parts part "[]"] by simp
  have c1: "interim_texts (channel_calls (turn_messages parts part) []) =
           cumulative [] (parts @ [part])"
    unfolding calls by (simp add: interim_texts_append interim_texts_map)
  have c2: "chunks (channel_calls (turn_messages parts part) []) =
           (if trim (last (cumulative [] (parts @ [part]))) = [] then []
            else [trim (last (cumulative [] (parts @ [part]))) @ '' ''])"
    unfolding calls l by (simp add: chunks_append chunks_map_interim)
  have c3: "\<forall>txts. txts \<noteq> [] \<longrightarrow>
             st_interimTranscript (handle_calls (map InterimTranscriptChange txts) s) = last txts
             \<and> st_fullTranscript (handle_calls (map InterimTranscriptChange txts) s) =
                 st_fullTranscript s"
    by (simp add: handle_interims)
  have c4: "\<forall>k<length parts.
             st_interimTranscript (deliver (map interim (take (Suc k) parts)) s) =
               cumulative [] parts ! k
             \<and> st_fullTranscript (deliver (map interim (take (Suc k) parts)) s) =
                 st_fullTranscript s"
  proof (intro allI impI)
    fix k assume k: "k < length parts"
    then have ne: "take (Suc k) parts \<noteq> []" by (cases parts) simp_all
    show "st_interimTranscript (deliver (map interim (take (Suc k) parts)) s) =
               cumulative [] parts ! k
             \<and> st_fullTranscript (deliver (map interim (take (Suc k) parts)) s) =
                 st_fullTranscript s"
      using assms ne k by (simp add: deliver_interims nth_cumulative)
  qed
  have c5: "st_fullTranscript (deliver (turn_messages parts part) s) =
           st_fullTranscript s
           @ (if trim (last (cumulative [] (parts @ [part]))) = [] then []
              else trim (last (cumulative [] (parts @ [part]))) @ '' '')
       \<and> currentTurnTranscription (deliver (turn_messages parts part) s) = []"
    unfolding l turn_messages_def using assms
    by (cases "parts = []")
       (simp_all add: deliver_append deliver_interims onmessage_completing Let_def)
  from c1 c2 c3 c4 c5 l show ?thesis by blast
qed

theorem interim_events_replace_witness:
  "currentTurnTranscription initialApp = [] \<and>
   interim_texts (channel_calls (turn_messages [Some ''a'', Some '' b''] (Some '' c'')) []) =
     [''a'', ''a b'', ''a b c''] \<and>
   chunks (channel_calls (turn_messages [Some ''a'', Some '' b''] (Some '' c'')) []) = [''a b c ''] \<and>
   st_interimTranscript
     (handle_calls (map InterimTranscriptChange [''a'', ''a b'', ''a b c'']) initialApp) = ''a b c'' \<and>
   st_fullTranscript (deliver (turn_messages [Some ''a'', Some '' b''] (Some '' c'')) initialApp) =
     ''a b c ''"
proof -
  let ?ps = "[Some ''a'', Some '' b''] @ [Some '' c'']"
  let ?ms = "turn_messages [Some ''a'', Some '' b''] (Some '' c'')"
  have h: "currentTurnTranscription initialApp = []" by (simp add: initialApp_def)
  have c: "cumulative [] ?ps = [''a'', ''a b'', ''a b c'']"
    by (simp add: text_of_def)
  have lc: "trim (last (cumulative [] ?ps)) = ''a b c''"
    unfolding c by (simp add: trim_def trimStart_def trimEnd_def is_ws_def)
  have f: "st_fullTranscript initialApp = []" by (simp add: initialApp_def)
  note main = interim_events_replace [OF h, of "[Some ''a'', Some '' b'']" "Some '' c''"]
  from main have "interim_texts (channel_calls ?ms []) = cumulative [] ?ps"
    by blast
  then have m1: "interim_texts (channel_calls ?ms []) = [''a'', ''a b'', ''a b c'']"
    unfolding c .
  from main have "chunks (channel_calls ?ms []) =
      (if trim (last (cumulative [] ?ps)) = [] then [] else [trim (last (cumulative [] ?ps)) @ '' ''])"
    by blast
  then have m2: "chunks (channel_calls ?ms []) = [''a b c '']"
    unfolding lc by simp
  from main have "st_interimTranscript
     (handle_calls (map InterimTranscriptChange [''a'', ''a b'', ''a b c'']) initialApp) =
       last [''a'', ''a b'', ''a b c'']"
    by blast
  then have m3: "st_interimTranscript
     (handle_calls (map InterimTranscriptChange [''a'', ''a b'', ''a b c'']) initialApp) = ''a b c''"
    by simp
  from main have "st_fullTranscript (deliver ?ms initialApp) =
      st_fullTranscript initialApp
      @ (if trim (last (cumulative [] ?ps)) = [] then [] else trim (last (cumulative [] ?ps)) @ '' '')"
    by blast
  then have m5: "st_fullTranscript (deliver ?ms initialApp) = ''a b c ''"
    unfolding lc f by simp
  from h m1 m2 m3 m5 show ?thesis by (intro conjI)
qed


section \<open>Properties of the start of a session\<close>

lemma startListening_no_key:
  assumes "key_missing e" and "\<not> isListening s"
  shows "startListening e stream s =
           s\<lparr>error := Some (''Could not start transcription service: ''
                      @ ''API_KEY environment variable not set. Please select an API key.''),
             effects := effects s @ [ConsoleError ''Failed to start listening:'']\<rparr>"
  using assms by (simp add: startListening_def)

text \<open>
  Claim C3, as the code has it. With no credential configured and the channel not yet
  listening, a start attempt never gets to the network: no client, no audio context and
  no connection is created, and \<open>isListening\<close> stays false. \<open>startSession\<close> asks
  for the camera and the microphone before anything else; when they are granted, the
  transcription start records the configuration error while the stream is held and the
  state is \<open>ACTIVE\<close>.
\<close>

theorem credential_gate:
  assumes "key_missing e" and "\<not> isListening s"
  shows "isListening (startSession e clock cls s) = False
       \<and> sessionRef (startSession e clock cls s) = sessionRef s
       \<and> audioContextRef (startSession e clock cls s) = audioContextRef s
       \<and> (\<exists>tail. effects (startSession e clock cls s) = effects s @ GetUserMedia # tail
              \<and> NewGoogleGenAI \<notin> set tail \<and> NewAudioContext \<notin> set tail
              \<and> LiveConnect \<notin> set tail)
       \<and> (\<forall>stream. getUserMedia e = Inr stream \<longrightarrow>
              error (startSession e clock cls s) =
                Some (''Could not start transcription service: ''
                      @ ''API_KEY environment variable not set. Please select an API key.'')
              \<and> mediaStreamRef (startSession e clock cls s) = Some stream
              \<and> appState (startSession e clock cls s) = ACTIVE)"
proof (cases "getUserMedia e")
  case (Inl msg)
  then show ?thesis using assms by (simp add: startSession_def Let_def)
next
  case (Inr stream)
  then show ?thesis
    using assms by (simp add: startSession_def Let_def startListening_no_key)
qed

theorem credential_gate_witness:
  "key_missing no_key_env \<and> isListening initialApp = False \<and>
   isListening (startSession no_key_env 1000 biology initialApp) = False \<and>
   error (startSession no_key_env 1000 biology initialApp) =
     Some ''Could not start transcription service: API_KEY environment variable not set. Please select an API key.'' \<and>
   sessionRef (startSession no_key_env 1000 biology initialApp) = None"
proof -
  have k: "key_missing no_key_env" by (simp add: key_missing_def no_key_env_def)
  have l: "\<not> isListening initialApp" by (simp add: initialApp_def)
  have m: "getUserMedia no_key_env = Inr 1" by (simp add: no_key_env_def working_env_def)
  have r: "sessionRef initialApp = None" by (simp add: initialApp_def)
  from credential_gate [OF k l, of 1000 biology] k l m r show ?thesis by simp
qed

text \<open>
  With no credential configured, \<open>startSession\<close> does acquire the media devices and
  does not fail: the stream is held and the state is \<open>ACTIVE\<close>.
\<close>

theorem credential_gate_media_counterexample:
  "key_missing no_key_env
   \<and> mediaStreamRef (startSession no_key_env 1000 biology initialApp) = Some 1
   \<and> appState (startSession no_key_env 1000 biology initialApp) = ACTIVE
   \<and> effects (startSession no_key_env 1000 biology initialApp) =
       [GetUserMedia, ConsoleError ''Failed to start listening:'']"
  by (simp add: startSession_def startListening_def key_missing_def no_key_env_def
        working_env_def initialApp_def Let_def)


section \<open>Properties of the end of a session\<close>

lemma trimStart_append:
  "trimStart (a @ b) = (if blank a then trimStart b else trimStart a @ b)"
proof (cases "blank a")
  case True
  then have "\<And>x. x \<in> set a \<Longrightarrow> is_ws x" by (simp add: blank_def list_all_iff)
  then show ?thesis using True by (simp add: trimStart_def dropWhile_append2)
next
  case False
  then obtain x where "x \<in> set a" "\<not> is_ws x" by (auto simp: blank_def list_all_iff)
  then show ?thesis using False by (simp add: trimStart_def dropWhile_append1)
qed

lemma trimEnd_append:
  "trimEnd (a @ b) = (if blank b then trimEnd a else a @ trimEnd b)"
proof (cases "blank b")
  case True
  have "dropWhile is_ws (rev b @ rev a) = dropWhile is_ws (rev a)"
    by (rule dropWhile_append2) (use True in \<open>simp add: blank_def list_all_iff\<close>)
  then show ?thesis using True by (simp add: trimEnd_def)
next
  case False
  then obtain x where x: "x \<in> set (rev b)" "\<not> is_ws x" by (auto simp: blank_def list_all_iff)
  have "dropWhile is_ws (rev b @ rev a) = dropWhile is_ws (rev b) @ rev a"
    using x by (rule dropWhile_append1)
  then show ?thesis using False by (simp add: trimEnd_def)
qed

lemma blank_trimStart: "blank (trimStart s) = blank s"
  by (induction s) (auto simp: trimStart_def blank_def)

lemma trimStart_blank: "blank s \<Longrightarrow> trimStart s = []"
  by (simp add: trimStart_def blank_def list_all_iff)

lemma trimEnd_blank: "blank s \<Longrightarrow> trimEnd s = []"
  by (simp add: trimEnd_def blank_def list_all_iff)

lemma trim_blank: "blank s \<Longrightarrow> trim s = []"
  by (simp add: trim_def trimStart_blank trimEnd_def)

lemma trim_eq_Nil_iff: "trim s = [] \<longleftrightarrow> blank s"
proof
  assume "trim s = []"
  then have "dropWhile is_ws (rev (trimStart s)) = []" by (simp add: trim_def trimEnd_def)
  then have "blank (trimStart s)" by (simp add: dropWhile_eq_Nil_conv blank_def list_all_iff)
  then show "blank s" by (simp add: blank_trimStart)
qed (rule trim_blank)

lemma blank_space: "blank '' ''"
  by (simp add: blank_def is_ws_def)

lemma blank_append: "blank (a @ b) = (blank a \<and> blank b)"
  by (simp add: blank_def)

lemma trimEnd_split: "trimEnd s = takeWhile is_ws s @ trim s" if "\<not> blank s"
proof -
  have s: "s = takeWhile is_ws s @ trimStart s" by (simp add: trimStart_def)
  have nb: "\<not> blank (trimStart s)" using that by (simp add: blank_trimStart)
  have "trimEnd s = trimEnd (takeWhile is_ws s @ trimStart s)" using s by simp
  also have "\<dots> = takeWhile is_ws s @ trimEnd (trimStart s)"
    using nb by (simp add: trimEnd_append)
  finally show ?thesis by (simp add: trim_def)
qed

lemma trim_join:
  assumes "blank sep"
  shows "trim (c @ sep @ i) =
     (if blank i then trim c
      else if blank c then trim i
      else trimStart c @ sep @ trimEnd i)"
proof -
  have e: "trimEnd (sep @ i) = (if blank i then [] else sep @ trimEnd i)"
    using assms by (simp add: trimEnd_append [of sep i] trimEnd_blank)
  show ?thesis
  proof (cases "blank c")
    case True
    then show ?thesis
      using assms
      by (simp add: trim_def trimStart_append [of c] trimStart_append [of sep] trimStart_blank
            trimEnd_blank blank_trimStart)
  next
    case False
    have "trimEnd (trimStart c @ sep @ i) =
            (if blank (sep @ i) then trimEnd (trimStart c) else trimStart c @ trimEnd (sep @ i))"
      by (rule trimEnd_append)
    then show ?thesis
      using False assms by (simp add: trim_def trimStart_append [of c] blank_append e)
  qed
qed

lemma trim_join_suffix:
  assumes "blank sep"
  shows "\<exists>p. trim (c @ sep @ i) = p @ trim i"
proof (cases "blank i")
  case True
  then show ?thesis by (simp add: trim_blank)
next
  case False
  show ?thesis
  proof (cases "blank c")
    case True
    with False have "trim (c @ sep @ i) = [] @ trim i" by (simp add: trim_join [OF assms])
    then show ?thesis by blast
  next
    case c: False
    have "trim (c @ sep @ i) = (trimStart c @ sep @ takeWhile is_ws i) @ trim i"
      using False c by (simp add: trim_join [OF assms] trimEnd_split)
    then show ?thesis by blast
  qed
qed

lemma stopListening_keeps:
  "sessionStateRef (stopListening b s) = sessionStateRef s"
  "sessionData (stopListening b s) = sessionData s"
  by (simp_all add: stopListening_def)

lemma handleApiError_keeps:
  "sessionData (handleApiError st b msg s) = sessionData s"
  by (simp add: handleApiError_def stopListening_keeps Let_def split: option.splits)

lemma teardown_keeps:
  "sessionStateRef (teardown s) = sessionStateRef s"
  "sessionData (teardown s) = sessionData s"
  by (simp_all add: teardown_def Let_def stopListening_keeps split: option.splits)

lemma endSession_unfold:
  "endSession e clock s =
     (case finalize e (sessionData s) (finalTranscript_of s) (ref_subject (sessionStateRef s))
             (sealed clock s) of
        Inr filled \<Rightarrow> (teardown s)\<lparr>sessionData := filled, appState := SUMMARY\<rparr>
      | Inl err \<Rightarrow>
          (handleApiError (appState s) (isListening s) err (teardown s))\<lparr>appState := SETUP\<rparr>)"
proof -
  have r: "sessionStateRef
             ((case mediaStreamRef (stopListening (isListening s) s) of
                 None \<Rightarrow> stopListening (isListening s) s
               | Some stream \<Rightarrow>
                   (stopListening (isListening s) s)
                     \<lparr>mediaStreamRef := None,
                      effects := effects (stopListening (isListening s) s) @ [StopTracks]\<rparr>)
              \<lparr>appState := LOADING\<rparr>) = sessionStateRef s"
    by (simp add: stopListening_keeps split: option.splits)
  show ?thesis
    unfolding endSession_def teardown_def sealed_def Let_def finalTranscript_of_def r ..
qed

lemma resolve_keeps:
  "resolveClassAndSubject e sd ft fs fsd = Inr fsd' \<Longrightarrow>
     fullTranscript fsd' = fullTranscript fsd \<and> notes_text fsd' = notes_text fsd
     \<and> summary fsd' = summary fsd"
  by (auto simp: resolveClassAndSubject_def Let_def split: sum.splits if_splits)

lemma finalize_Inr:
  assumes "finalize e sd ft fs fsd = Inr filled"
  shows "\<exists>n m subj. structureNotes e ft = Inr n \<and> generateFinalSummary e ft subj = Inr m
           \<and> notes_text filled = Some n \<and> summary filled = Some m
           \<and> fullTranscript filled = fullTranscript fsd"
proof (cases "resolveClassAndSubject e sd ft fs fsd")
  case (Inl err)
  with assms show ?thesis by (simp add: finalize_def)
next
  case (Inr fsd')
  note r = this
  show ?thesis
  proof (cases "structureNotes e ft")
    case (Inl err)
    with assms r show ?thesis by (simp add: finalize_def)
  next
    case (Inr n)
    note n = this
    show ?thesis
    proof (cases "generateFinalSummary e ft (subject_of fsd')")
      case (Inl err)
      with assms r n show ?thesis by (simp add: finalize_def)
    next
      case (Inr m)
      with assms r n have "filled = fsd'\<lparr>notes_text := Some n, summary := Some m\<rparr>"
        by (simp add: finalize_def)
      with resolve_keeps [OF r] n Inr show ?thesis by auto
    qed
  qed
qed

lemma finalize_notes_fail:
  "structureNotes e ft = Inl err \<Longrightarrow> isl (finalize e sd ft fs fsd)"
  by (cases "resolveClassAndSubject e sd ft fs fsd") (simp_all add: finalize_def)

lemma finalize_summary_fail:
  assumes "\<forall>subj. isl (generateFinalSummary e ft subj)"
  shows "isl (finalize e sd ft fs fsd)"
proof (cases "resolveClassAndSubject e sd ft fs fsd")
  case (Inl err)
  then show ?thesis by (simp add: finalize_def)
next
  case (Inr fsd')
  from assms have "isl (generateFinalSummary e ft (subject_of fsd'))" by blast
  then obtain err where "generateFinalSummary e ft (subject_of fsd') = Inl err"
    by (cases "generateFinalSummary e ft (subject_of fsd')") simp_all
  with Inr show ?thesis
    by (cases "structureNotes e ft") (simp_all add: finalize_def)
qed

lemma finalize_summary_fail_actual:
  assumes "resolveClassAndSubject e sd ft fs fsd = Inr fsd'"
    and "isl (generateFinalSummary e ft (subject_of fsd'))"
  shows "isl (finalize e sd ft fs fsd)"
proof -
  from assms(2) obtain err where "generateFinalSummary e ft (subject_of fsd') = Inl err"
    by (cases "generateFinalSummary e ft (subject_of fsd')") simp_all
  with assms(1) show ?thesis
    by (cases "structureNotes e ft") (simp_all add: finalize_def)
qed

lemma endSession_failure:
  assumes "isl (finalize e (sessionData s) (finalTranscript_of s) (ref_subject (sessionStateRef s))
                  (sealed clock s))"
  shows "appState (endSession e clock s) = SETUP \<and> sessionData (endSession e clock s) = sessionData s"
  using assms
  by (cases "finalize e (sessionData s) (finalTranscript_of s) (ref_subject (sessionStateRef s))
               (sealed clock s)")
     (simp_all add: endSession_unfold handleApiError_keeps teardown_keeps)

lemma endSession_success:
  assumes "finalize e (sessionData s) (finalTranscript_of s) (ref_subject (sessionStateRef s))
             (sealed clock s) = Inr filled"
  shows "appState (endSession e clock s) = SUMMARY \<and> sessionData (endSession e clock s) = filled"
  using assms by (simp add: endSession_unfold)

text \<open>
  Claim C2, as the code has it. The final transcript of \<open>endSession\<close> is the
  committed transcript, one space and the interim text, trimmed as a whole: when both
  are not blank it is the committed transcript without its leading white space, a space,
  and the interim text without its trailing white space; when one of them is blank it is
  the other one, trimmed. In every case it ends with the trimmed interim text, so an
  unfinished turn is not lost. When the finalisation succeeds, this is the transcript
  stored in the session.
\<close>

theorem final_transcript_keeps_interim:
  "finalTranscript_of s =
     (if blank (ref_interimTranscript (sessionStateRef s))
      then trim (ref_fullTranscript (sessionStateRef s))
      else if blank (ref_fullTranscript (sessionStateRef s))
      then trim (ref_interimTranscript (sessionStateRef s))
      else trimStart (ref_fullTranscript (sessionStateRef s)) @ '' ''
           @ trimEnd (ref_interimTranscript (sessionStateRef s)))
   \<and> (\<exists>p. finalTranscript_of s = p @ trim (ref_interimTranscript (sessionStateRef s)))
   \<and> (appState (endSession e clock s) = SUMMARY \<longrightarrow>
        fullTranscript (sessionData (endSession e clock s)) = Some (finalTranscript_of s))"
proof (intro conjI impI)
  show "finalTranscript_of s =
     (if blank (ref_interimTranscript (sessionStateRef s))
      then trim (ref_fullTranscript (sessionStateRef s))
      else if blank (ref_fullTranscript (sessionStateRef s))
      then trim (ref_interimTranscript (sessionStateRef s))
      else trimStart (ref_fullTranscript (sessionStateRef s)) @ '' ''
           @ trimEnd (ref_interimTranscript (sessionStateRef s)))"
    unfolding finalTranscript_of_def by (rule trim_join [OF blank_space])
  show "\<exists>p. finalTranscript_of s = p @ trim (ref_interimTranscript (sessionStateRef s))"
    unfolding finalTranscript_of_def by (rule trim_join_suffix [OF blank_space])
next
  assume ok: "appState (endSession e clock s) = SUMMARY"
  let ?f = "finalize e (sessionData s) (finalTranscript_of s) (ref_subject (sessionStateRef s))
              (sealed clock s)"
  show "fullTranscript (sessionData (endSession e clock s)) = Some (finalTranscript_of s)"
  proof (cases ?f)
    case (Inl err)
    then have "isl ?f" by simp
    from endSession_failure [OF this] ok show ?thesis by simp
  next
    case (Inr filled)
    from finalize_Inr [OF Inr] have "fullTranscript filled = fullTranscript (sealed clock s)"
      by blast
    with endSession_success [OF Inr] show ?thesis by (simp add: sealed_def)
  qed
qed

lemma finalTranscript_recording: "finalTranscript_of recording_app = ''hello  wor''"
  by (simp add: finalTranscript_of_def recording_app_def emptyRef_def trim_def trimStart_def
        trimEnd_def is_ws_def)

lemma endSession_recording_ok: "appState (endSession working_env 5000 recording_app) = SUMMARY"
proof -
  have ft: "trim ''hello  wor'' = ''hello  wor''"
    by (simp add: trim_def trimStart_def trimEnd_def is_ws_def)
  have sd: "className (sessionData recording_app) = Some ''Biology 101''"
    by (simp add: recording_app_def emptySession_def)
  have "\<exists>filled. finalize working_env (sessionData recording_app) (finalTranscript_of recording_app)
          (ref_subject (sessionStateRef recording_app)) (sealed 5000 recording_app) = Inr filled"
    unfolding finalTranscript_recording
    by (simp add: finalize_def resolveClassAndSubject_def sd structureNotes_def
          generateFinalSummary_def getAiClient_def key_missing_def working_env_def ft)
  then show ?thesis using endSession_success by blast
qed

theorem final_transcript_keeps_interim_witness:
  "appState (endSession working_env 5000 recording_app) = SUMMARY \<and>
   fullTranscript (sessionData (endSession working_env 5000 recording_app)) = Some ''hello  wor'' \<and>
   trim (ref_interimTranscript (sessionStateRef recording_app)) = ''wor''"
proof -
  have i: "trim (ref_interimTranscript (sessionStateRef recording_app)) = ''wor''"
    by (simp add: recording_app_def emptyRef_def trim_def trimStart_def trimEnd_def is_ws_def)
  from final_transcript_keeps_interim [of recording_app working_env 5000]
    endSession_recording_ok finalTranscript_recording i
  show ?thesis by simp
qed

text \<open>
  The final transcript is not the committed transcript followed by the trimmed interim
  text: with the committed transcript \<open>hello \<close> (a turn and its trailing space) and
  the interim text \<open>wor\<close> it has two spaces between the words.
\<close>

theorem final_transcript_concatenation_counterexample:
  "finalTranscript_of recording_app = ''hello  wor''
   \<and> ref_fullTranscript (sessionStateRef recording_app)
       @ trim (ref_interimTranscript (sessionStateRef recording_app)) = ''hello wor''"
  by (simp add: finalTranscript_of_def recording_app_def emptyRef_def trim_def trimStart_def
        trimEnd_def is_ws_def)

text \<open>
  Claim C8. \<open>endSession\<close> ends in the state \<open>SUMMARY\<close> or in the state
  \<open>SETUP\<close>. It ends in \<open>SUMMARY\<close> only when the notes and the summary were both
  generated, and the session then holds both. Otherwise the session data are what they
  were before the call: no session with notes but no summary is produced. When the notes
  request fails, or the summary request fails whatever subject it is given, or it
  fails for the subject that the first step has resolved, the state is \<open>SETUP\<close>.
\<close>

theorem finalization_atomic:
  "(appState (endSession e clock s) = SUMMARY \<or> appState (endSession e clock s) = SETUP)
   \<and> (appState (endSession e clock s) = SUMMARY \<longrightarrow>
        (\<exists>n m subj. structureNotes e (finalTranscript_of s) = Inr n
           \<and> generateFinalSummary e (finalTranscript_of s) subj = Inr m
           \<and> notes_text (sessionData (endSession e clock s)) = Some n
           \<and> summary (sessionData (endSession e clock s)) = Some m))
   \<and> (appState (endSession e clock s) \<noteq> SUMMARY \<longrightarrow>
        sessionData (endSession e clock s) = sessionData s)
   \<and> (isl (structureNotes e (finalTranscript_of s)) \<longrightarrow>
        appState (endSession e clock s) = SETUP)
   \<and> ((\<forall>subj. isl (generateFinalSummary e (finalTranscript_of s) subj)) \<longrightarrow>
        appState (endSession e clock s) = SETUP)
   \<and> (\<forall>fsd. resolveClassAndSubject e (sessionData s) (finalTranscript_of s)
               (ref_subject (sessionStateRef s)) (sealed clock s) = Inr fsd
             \<and> isl (generateFinalSummary e (finalTranscript_of s) (subject_of fsd)) \<longrightarrow>
        appState (endSession e clock s) = SETUP)"
proof -
  let ?f = "finalize e (sessionData s) (finalTranscript_of s) (ref_subject (sessionStateRef s))
              (sealed clock s)"
  have fail: "isl ?f \<Longrightarrow>
      appState (endSession e clock s) = SETUP \<and> sessionData (endSession e clock s) = sessionData s"
    by (rule endSession_failure)
  have nfail: "isl (structureNotes e (finalTranscript_of s)) \<Longrightarrow> isl ?f"
    by (cases "structureNotes e (finalTranscript_of s)") (simp_all add: finalize_notes_fail)
  have sfail: "\<forall>subj. isl (generateFinalSummary e (finalTranscript_of s) subj) \<Longrightarrow> isl ?f"
    by (rule finalize_summary_fail)
  have actual: "isl ?f"
    if "resolveClassAndSubject e (sessionData s) (finalTranscript_of s)
          (ref_subject (sessionStateRef s)) (sealed clock s) = Inr fsd"
      and "isl (generateFinalSummary e (finalTranscript_of s) (subject_of fsd))" for fsd
    using that by (rule finalize_summary_fail_actual)
  show ?thesis
  proof (cases ?f)
    case (Inl err)
    then have "isl ?f" by simp
    from fail [OF this] show ?thesis by simp
  next
    case (Inr filled)
    then have nf: "\<not> isl ?f" by simp
    from finalize_Inr [OF Inr] endSession_success [OF Inr] nfail sfail actual nf
    show ?thesis by auto
  qed
qed

lemma summary_fails_outcomes:
  "structureNotes summary_fails_env (finalTranscript_of recording_app) = Inr ''<h2>Notes</h2>''"
  "generateFinalSummary summary_fails_env (finalTranscript_of recording_app) subj =
     Inl ''503 unavailable''"
  unfolding finalTranscript_recording
  by (simp_all add: structureNotes_def generateFinalSummary_def getAiClient_def key_missing_def
        summary_fails_env_def working_env_def trim_def trimStart_def trimEnd_def is_ws_def)

theorem finalization_atomic_witness:
  "structureNotes summary_fails_env (finalTranscript_of recording_app) = Inr ''<h2>Notes</h2>'' \<and>
   generateFinalSummary summary_fails_env (finalTranscript_of recording_app) ''Not detected'' =
     Inl ''503 unavailable'' \<and>
   appState (endSession summary_fails_env 5000 recording_app) = SETUP \<and>
   notes_text (sessionData (endSession summary_fails_env 5000 recording_app)) = None \<and>
   summary (sessionData (endSession summary_fails_env 5000 recording_app)) = None"
proof -
  note main = finalization_atomic [of summary_fails_env 5000 recording_app]
  have h: "\<forall>subj. isl (generateFinalSummary summary_fails_env (finalTranscript_of recording_app) subj)"
    by (simp add: summary_fails_outcomes)
  from main h have st: "appState (endSession summary_fails_env 5000 recording_app) = SETUP"
    by blast
  with main have "sessionData (endSession summary_fails_env 5000 recording_app) =
                  sessionData recording_app"
    by simp
  moreover have "notes_text (sessionData recording_app) = None"
    "summary (sessionData recording_app) = None"
    by (simp_all add: recording_app_def emptySession_def)
  ultimately show ?thesis using st summary_fails_outcomes by simp
qed



section \<open>Properties of the class library\<close>

lemma handleSaveSession_rejects:
  assumes "className sess = None \<or> className sess = Some []"
  shows "registeredClasses (handleSaveSession clock sess s) = registeredClasses s"
  using assms by (auto simp: handleSaveSession_def)

lemma handleSaveSession_new:
  assumes "className sess = Some n" and "n \<noteq> []"
    and "find (\<lambda>c. toLowerCase (name c) = toLowerCase n) (registeredClasses s) = None"
  shows "registeredClasses (handleSaveSession clock sess s) =
           registeredClasses s
           @ [\<lparr>class_id = string_of_nat clock, name = n,
                sessions = [sess\<lparr>className := Some n\<rparr>]\<rparr>]"
  using assms by (simp add: handleSaveSession_def Let_def)

lemma handleSaveSession_merge:
  assumes "className sess = Some n" and "n \<noteq> []"
    and "find (\<lambda>c. toLowerCase (name c) = toLowerCase n) (registeredClasses s) = Some target"
  shows "registeredClasses (handleSaveSession clock sess s) =
           map (\<lambda>cls. if class_id cls = class_id target
                      then cls\<lparr>sessions := sessions cls @ [sess\<lparr>className := Some (name cls)\<rparr>]\<rparr>
                      else cls)
             (registeredClasses s)"
  using assms by (simp add: handleSaveSession_def Let_def)

text \<open>
  The sessions that reach \<open>handleSaveSession\<close> have a class name: \<open>startSession\<close>
  gives the session the name of its class, and a finalisation that ends in
  \<open>SUMMARY\<close> keeps a non-empty class name or replaces it by a generated one, which
  is never empty.
\<close>

lemma generated_class_name_nonempty:
  "generateClassNameFromTranscript e transcript = Inr g \<Longrightarrow> g \<noteq> []"
  by (auto simp: generateClassNameFromTranscript_def split: if_splits sum.splits)

lemma resolve_class_name:
  assumes "resolveClassAndSubject e sd ft fs fsd = Inr fsd'"
    and "className fsd = Some n" and "n \<noteq> []"
  shows "\<exists>n'. className fsd' = Some n' \<and> n' \<noteq> []"
proof (cases "className sd = Some ''Quick Record'' \<and> 50 < length (trim ft)")
  case False
  with assms show ?thesis by (simp add: resolveClassAndSubject_def)
next
  case True
  show ?thesis
  proof (cases "generateClassNameFromTranscript e ft")
    case (Inl err)
    with True assms show ?thesis by (simp add: resolveClassAndSubject_def)
  next
    case (Inr g)
    from generated_class_name_nonempty [OF Inr] have g: "g \<noteq> []" .
    from assms(1) True Inr have "className fsd' = Some g"
      by (auto simp: resolveClassAndSubject_def Let_def split: if_splits sum.splits)
    with g show ?thesis by simp
  qed
qed

lemma finalized_session_has_class_name:
  assumes "appState (endSession e clock s) = SUMMARY"
    and "className (sessionData s) = Some n" and "n \<noteq> []"
  shows "\<exists>n'. className (sessionData (endSession e clock s)) = Some n' \<and> n' \<noteq> []"
proof -
  let ?f = "finalize e (sessionData s) (finalTranscript_of s) (ref_subject (sessionStateRef s))
              (sealed clock s)"
  show ?thesis
  proof (cases ?f)
    case (Inl err)
    then have "isl ?f" by simp
    from endSession_failure [OF this] assms(1) show ?thesis by simp
  next
    case (Inr filled)
    let ?r = "resolveClassAndSubject e (sessionData s) (finalTranscript_of s)
                (ref_subject (sessionStateRef s)) (sealed clock s)"
    from Inr obtain fsd' where r: "?r = Inr fsd'" and f: "className filled = className fsd'"
      by (cases ?r; cases "structureNotes e (finalTranscript_of s)")
         (auto simp: finalize_def split: sum.splits)
    have "className (sealed clock s) = Some n" using assms(2) by (simp add: sealed_def)
    from resolve_class_name [OF r this assms(3)] f endSession_success [OF Inr]
    show ?thesis by simp
  qed
qed

lemma started_session_has_class_name:
  "getUserMedia e = Inr stream \<Longrightarrow>
   className (sessionData (startSession e clock cls s)) = Some (name cls)"
  by (simp add: startSession_def startListening_def Let_def emptySession_def
        split: option.splits sum.splits)

text \<open>
  Claim C9. A finalized session carries a non-empty class name. Saving it merges it
  exactly when the lower-cased name of some registered class equals its lower-cased
  class name: then no class is added, names and identifiers stay, and the first such
  class (with every class that carries the identifier of that class) gets the session
  appended, under the stored name of the class, while every other class stays as it is.
  Otherwise a new class with the session's class name, holding the session, is appended
  to the library.
\<close>

theorem save_merges_on_case_insensitive_match:
  assumes "className sess = Some n" and "n \<noteq> []"
  shows "((\<exists>c\<in>set (registeredClasses s). toLowerCase (name c) = toLowerCase n) \<longrightarrow>
           map name (registeredClasses (handleSaveSession clock sess s)) =
             map name (registeredClasses s)
           \<and> map class_id (registeredClasses (handleSaveSession clock sess s)) =
             map class_id (registeredClasses s)
           \<and> (\<exists>i<length (registeredClasses s).
                 toLowerCase (name (registeredClasses s ! i)) = toLowerCase n
                 \<and> (\<forall>j<i. toLowerCase (name (registeredClasses s ! j)) \<noteq> toLowerCase n)
                 \<and> sessions (registeredClasses (handleSaveSession clock sess s) ! i) =
                     sessions (registeredClasses s ! i)
                     @ [sess\<lparr>className := Some (name (registeredClasses s ! i))\<rparr>]
                 \<and> (\<forall>j<length (registeredClasses s).
                       registeredClasses (handleSaveSession clock sess s) ! j =
                         (if class_id (registeredClasses s ! j) = class_id (registeredClasses s ! i)
                          then (registeredClasses s ! j)
                                 \<lparr>sessions := sessions (registeredClasses s ! j)
                                    @ [sess\<lparr>className := Some (name (registeredClasses s ! j))\<rparr>]\<rparr>
                          else registeredClasses s ! j))))
       \<and> (\<not> (\<exists>c\<in>set (registeredClasses s). toLowerCase (name c) = toLowerCase n) \<longrightarrow>
             registeredClasses (handleSaveSession clock sess s) =
               registeredClasses s
               @ [\<lparr>class_id = string_of_nat clock, name = n,
                    sessions = [sess\<lparr>className := Some n\<rparr>]\<rparr>])"
proof (intro conjI impI)
  let ?cs = "registeredClasses s"
  let ?P = "\<lambda>c. toLowerCase (name c) = toLowerCase n"
  {
    assume "\<not> (\<exists>c\<in>set ?cs. ?P c)"
    then have "find ?P ?cs = None" by (simp add: find_None_iff)
    with assms show "registeredClasses (handleSaveSession clock sess s) =
               ?cs @ [\<lparr>class_id = string_of_nat clock, name = n,
                    sessions = [sess\<lparr>className := Some n\<rparr>]\<rparr>]"
      by (simp add: handleSaveSession_new)
  }
  assume "\<exists>c\<in>set ?cs. ?P c"
  then obtain target where t: "find ?P ?cs = Some target"
    by (cases "find ?P ?cs") (auto simp: find_None_iff)
  let ?f = "\<lambda>cls. if class_id cls = class_id target
                 then cls\<lparr>sessions := sessions cls @ [sess\<lparr>className := Some (name cls)\<rparr>]\<rparr>
                 else cls"
  have upd: "registeredClasses (handleSaveSession clock sess s) = map ?f ?cs"
    using assms t by (simp add: handleSaveSession_merge)
  show "map name (registeredClasses (handleSaveSession clock sess s)) = map name ?cs"
    unfolding upd by (simp add: comp_def)
  show "map class_id (registeredClasses (handleSaveSession clock sess s)) = map class_id ?cs"
    unfolding upd by (simp add: comp_def)
  from t obtain i where i: "i < length ?cs" "?P (?cs ! i)" "target = ?cs ! i"
    "\<forall>j<i. \<not> ?P (?cs ! j)"
    unfolding find_Some_iff by blast
  show "\<exists>i<length ?cs.
          toLowerCase (name (?cs ! i)) = toLowerCase n
          \<and> (\<forall>j<i. toLowerCase (name (?cs ! j)) \<noteq> toLowerCase n)
          \<and> sessions (registeredClasses (handleSaveSession clock sess s) ! i) =
              sessions (?cs ! i) @ [sess\<lparr>className := Some (name (?cs ! i))\<rparr>]
          \<and> (\<forall>j<length ?cs.
                registeredClasses (handleSaveSession clock sess s) ! j =
                  (if class_id (?cs ! j) = class_id (?cs ! i)
                   then (?cs ! j)\<lparr>sessions := sessions (?cs ! j)
                          @ [sess\<lparr>className := Some (name (?cs ! j))\<rparr>]\<rparr>
                   else ?cs ! j))"
    unfolding upd using i by (intro exI [of _ i]) simp
qed

lemma lower_examples:
  "toLowerCase ''math'' = ''math''" "toLowerCase ''Math'' = ''math''"
  "toLowerCase ''Biology 101'' = ''biology 101''"
  by (simp_all add: toLowerCase_def lower_char_def char_of_def bit_Suc_0_iff)

lemma string_of_nat_3000: "string_of_nat 3000 = ''3000''"
  by (simp add: string_of_nat.simps char_of_def bit_Suc_0_iff)

lemma save_math:
  "registeredClasses (handleSaveSession 3000 math_session library_app) =
     [\<lparr>class_id = ''1000'', name = ''Biology 101'', sessions = []\<rparr>,
      \<lparr>class_id = ''2000'', name = ''Math'',
        sessions = [math_session\<lparr>className := Some ''Math''\<rparr>]\<rparr>]"
  by (simp add: handleSaveSession_def library_app_def two_classes_def math_session_def
        emptySession_def lower_examples Let_def)

theorem save_merges_on_case_insensitive_match_witness:
  "className math_session = Some ''math'' \<and>
   list_ex (\<lambda>c. toLowerCase (name c) = toLowerCase ''math'') (registeredClasses library_app) \<and>
   map name (registeredClasses (handleSaveSession 3000 math_session library_app)) =
     [''Biology 101'', ''Math''] \<and>
   registeredClasses (handleSaveSession 3000 math_session library_app) =
     [\<lparr>class_id = ''1000'', name = ''Biology 101'', sessions = []\<rparr>,
      \<lparr>class_id = ''2000'', name = ''Math'',
        sessions = [math_session\<lparr>className := Some ''Math''\<rparr>]\<rparr>]"
proof -
  have c: "className math_session = Some ''math''"
    by (simp add: math_session_def emptySession_def)
  have ne: "''math'' \<noteq> []" by simp
  have m: "\<exists>c\<in>set (registeredClasses library_app). toLowerCase (name c) = toLowerCase ''math''"
    by (simp add: library_app_def two_classes_def lower_examples)
  from save_merges_on_case_insensitive_match [OF c ne, of library_app 3000] m
  have "map name (registeredClasses (handleSaveSession 3000 math_session library_app)) =
          map name (registeredClasses library_app)"
    by blast
  then have "map name (registeredClasses (handleSaveSession 3000 math_session library_app)) =
          [''Biology 101'', ''Math'']"
    by (simp add: library_app_def two_classes_def)
  with c m save_math show ?thesis by (simp add: list_ex_iff)
qed

lemma library_ok_append:
  "library_ok (cs @ [c]) = (library_ok cs \<and> (\<forall>x\<in>set (sessions c). className x = Some (name c)))"
  by (auto simp: library_ok_def)

text \<open>
  Claim C10. If every session stored in a registered class carries the name of that
  class, then the same holds after adding a class, after deleting a class and after
  saving a session. A session saved into a class that matches only up to case is stored
  under the name of the class: saving a session of class \<open>math\<close> into the class
  \<open>Math\<close> stores it with the class name \<open>Math\<close>.
\<close>

theorem library_invariant_kept:
  assumes "library_ok (registeredClasses s)"
  shows "library_ok (registeredClasses (handleAddClass clock s))
       \<and> library_ok (registeredClasses (handleDeleteClass cid s))
       \<and> library_ok (registeredClasses (handleSaveSession clock sess s))"
proof (intro conjI)
  show "library_ok (registeredClasses (handleAddClass clock s))"
    using assms by (simp add: handleAddClass_def Let_def library_ok_append)
  show "library_ok (registeredClasses (handleDeleteClass cid s))"
    using assms by (auto simp: handleDeleteClass_def Let_def library_ok_def)
  show "library_ok (registeredClasses (handleSaveSession clock sess s))"
  proof (cases "className sess")
    case None
    then show ?thesis using assms by (simp add: handleSaveSession_rejects)
  next
    case (Some n)
    show ?thesis
    proof (cases "n = []")
      case True
      with Some show ?thesis using assms by (simp add: handleSaveSession_rejects)
    next
      case False
      show ?thesis
      proof (cases "find (\<lambda>c. toLowerCase (name c) = toLowerCase n) (registeredClasses s)")
        case None
        from handleSaveSession_new [OF Some False None] assms show ?thesis
          by (simp add: library_ok_append)
      next
        case (Some target)
        from handleSaveSession_merge [OF \<open>className sess = Some n\<close> False Some] assms
        show ?thesis by (auto simp: library_ok_def)
      qed
    qed
  qed
qed

theorem library_invariant_kept_witness:
  "library_ok (registeredClasses library_app) \<and>
   library_ok (registeredClasses (handleSaveSession 3000 math_session library_app)) \<and>
   map className (sessions (registeredClasses (handleSaveSession 3000 math_session library_app) ! 1)) =
     [Some ''Math'']"
proof -
  have h: "library_ok (registeredClasses library_app)"
    by (simp add: library_ok_def library_app_def two_classes_def)
  from library_invariant_kept [OF h, of 3000 "''1000''" math_session]
  have "library_ok (registeredClasses (handleSaveSession 3000 math_session library_app))"
    by blast
  with h show ?thesis by (simp add: save_math)
qed

end
